theory Spec2Isabelle
  imports Complex_Main
begin

section \<open>Python and numpy primitives used by flowmap/subgrid.py\<close>

text \<open>
  Floating-point numbers are modelled by exact reals: rounding is not part of the model.
  Every Python exception is a value of \<open>error\<close>. numpy does not raise on a float
  division by zero, it yields \<open>inf\<close> or \<open>nan\<close>; the reals have no such element, so
  the model ends such a computation with \<open>NonFinite\<close>, after every exception the
  same statement could raise.
\<close>

datatype error = KeyError | IndexError | TypeError | ValueError | UnboundLocalError | NonFinite

definition bind :: "error + 'a \<Rightarrow> ('a \<Rightarrow> error + 'b) \<Rightarrow> error + 'b" where
  "bind m f = (case m of Inl e \<Rightarrow> Inl e | Inr x \<Rightarrow> f x)"

text \<open>\<open>xs[i]\<close>: a negative index counts from the end, an index out of range raises.\<close>

definition py_index :: "'a list \<Rightarrow> int \<Rightarrow> error + 'a" where
  "py_index xs i =
     (if 0 \<le> i \<and> i < int (length xs) then Inr (xs ! nat i)
      else if i < 0 \<and> - int (length xs) \<le> i then Inr (xs ! nat (i + int (length xs)))
      else Inl IndexError)"

text \<open>\<open>xs[start:stop]\<close>: negative bounds count from the end, all bounds are clipped.\<close>

definition clip_bound :: "nat \<Rightarrow> int \<Rightarrow> nat" where
  "clip_bound n i = (if i < 0 then nat (max (i + int n) 0) else nat (min i (int n)))"

definition py_slice :: "'a list \<Rightarrow> int \<Rightarrow> int \<Rightarrow> 'a list" where
  "py_slice xs start stop =
     take (clip_bound (length xs) stop - clip_bound (length xs) start)
          (drop (clip_bound (length xs) start) xs)"

text \<open>Float division, \<open>x / y\<close> on numpy scalars.\<close>

definition fdiv :: "real \<Rightarrow> real \<Rightarrow> error + real" where
  "fdiv x y = (if y = 0 then Inl NonFinite else Inr (x / y))"

text \<open>
  \<open>bisect.bisect\<close> is \<open>bisect_right\<close>:
  \<^verbatim>\<open>
  lo, hi = 0, len(a)
  while lo < hi:
      mid = (lo + hi) // 2
      if x < a[mid]: hi = mid
      else: lo = mid + 1
  return lo
  \<close>
\<close>

function bisect_loop :: "real list \<Rightarrow> real \<Rightarrow> nat \<Rightarrow> nat \<Rightarrow> nat" where
  "bisect_loop a x lo hi =
     (if lo < hi
      then (if x < a ! ((lo + hi) div 2)
            then bisect_loop a x lo ((lo + hi) div 2)
            else bisect_loop a x ((lo + hi) div 2 + 1) hi)
      else lo)"
  by pat_completeness auto
termination
  by (relation "measure (\<lambda>(a, x, lo, hi). hi - lo)") auto

declare bisect_loop.simps [simp del]

definition bisect :: "real list \<Rightarrow> real \<Rightarrow> nat" where
  "bisect a x = bisect_loop a x 0 (length a)"

section \<open>Rasters, the terrain and table rows\<close>

text \<open>
  A masked array is a grid of optional values, \<open>None\<close> for a masked pixel. The element
  type of the terrain band is kept apart: the band "is sometimes int" (compute_band),
  and an array made by \<open>zeros_like\<close> inherits it.
\<close>

type_synonym pixel = "real option"
type_synonym raster = "pixel list list"

datatype dtype = IntDType | FloatDType

record dem =
  band :: raster
  band_dtype :: dtype
  affine_a :: real
  affine_e :: real
  dxp :: real
  dyp :: real
  world2px :: "(real \<times> real) list \<Rightarrow> (int \<times> int) list"

text \<open>\<open>band[r0:r1, c0:c1]\<close>\<close>

definition window :: "raster \<Rightarrow> int \<times> int \<Rightarrow> int \<times> int \<Rightarrow> raster" where
  "window b rs cs = map (\<lambda>r. py_slice r (fst cs) (snd cs)) (py_slice b (fst rs) (snd rs))"

text \<open>\<open>np.prod(a.shape)\<close> of a two-dimensional array.\<close>

definition n_pixels :: "raster \<Rightarrow> nat" where
  "n_pixels r = length r * (case r of [] \<Rightarrow> 0 | x # _ \<Rightarrow> length x)"

text \<open>
  A row built by build_tables carries its window as a pair of slices (column \<open>slice\<close>); a
  row read back by import_tables carries four integer columns \<open>slice_0 .. slice_3\<close>.
\<close>

datatype window_ref = Slice "int \<times> int" "int \<times> int" | SliceInts int int int int

datatype result = Level real | Depth raster

datatype cellval = Num real | Res "result option"

record row =
  row_id :: nat
  slice_ref :: window_ref
  face :: "(real \<times> real) list"
  volume_table :: "real list option"
  cum_volume_table :: "real list option"
  n_per_bin :: "nat list option"
  extent :: "real list"
  bin_edges :: "real list option"
  cols :: "string \<rightharpoonup> cellval"

section \<open>The level solver: subgrid_compute\<close>

text \<open>\<open>row[name]\<close> for a numeric column added after the tables were built.\<close>

definition num_col :: "row \<Rightarrow> string \<Rightarrow> error + real" where
  "num_col r name =
     (case cols r name of None \<Rightarrow> Inl KeyError
      | Some (Num v) \<Rightarrow> Inr v
      | Some (Res _) \<Rightarrow> Inl TypeError)"

definition row_window :: "row \<Rightarrow> dem \<Rightarrow> raster" where
  "row_window r d =
     (case slice_ref r of
        Slice rs cs \<Rightarrow> window (band d) rs cs
      | SliceInts s0 s1 s2 s3 \<Rightarrow> window (band d) (s0, s2) (s1, s3))"

text \<open>The test \<open>fill_idx >= len(cum_volume_table) - 1\<close> of line 58.\<close>

definition overflow :: "nat \<Rightarrow> real list \<Rightarrow> bool" where
  "overflow fill_idx cvt = (int (length cvt) - 1 \<le> int fill_idx)"

text \<open>
  Lines 53 to 63. \<open>cum_volume_table[fill_idx - 1]\<close> is read before the branch, with
  Python's indexing: at \<open>fill_idx = 0\<close> it is the last entry.
\<close>

definition target_level ::
  "real list \<Rightarrow> real list option \<Rightarrow> real list \<Rightarrow> real \<Rightarrow> real \<Rightarrow> error + real" where
  "target_level be vt cvt face_area vol_i =
     (let fill_idx = bisect cvt vol_i in
      bind (py_index cvt (int fill_idx - 1)) (\<lambda>c_prev.
      let remaining_volume = vol_i - c_prev in
      if overflow fill_idx cvt
      then bind (py_index cvt (-1)) (\<lambda>c_last.
           bind (py_index be (-1)) (\<lambda>e_last.
           bind (fdiv (vol_i - c_last) face_area) (\<lambda>remaining.
           Inr (e_last + remaining))))
      else (case vt of None \<Rightarrow> Inl TypeError | Some vt \<Rightarrow>
           bind (py_index vt (int fill_idx)) (\<lambda>v_k.
           bind (py_index be (int fill_idx)) (\<lambda>e_k.
           bind (py_index be (int fill_idx + 1)) (\<lambda>e_k1.
           bind (fdiv remaining_volume v_k) (\<lambda>fraction.
           Inr (e_k + fraction * (e_k1 - e_k)))))))))"

text \<open>
  Lines 68 to 71: \<open>zeros_like(dem_i)\<close> has the element type of the band, and storing a
  float into an integer array truncates it towards zero.
\<close>

definition trunc :: "real \<Rightarrow> int" where
  "trunc x = (if 0 \<le> x then \<lfloor>x\<rfloor> else \<lceil>x\<rceil>)"

definition cast :: "dtype \<Rightarrow> real \<Rightarrow> real" where
  "cast t x = (case t of FloatDType \<Rightarrow> x | IntDType \<Rightarrow> real_of_int (trunc x))"

definition depth_px :: "dtype \<Rightarrow> real \<Rightarrow> pixel \<Rightarrow> pixel" where
  "depth_px t level p =
     (case p of None \<Rightarrow> None
      | Some z \<Rightarrow> Some (if z < level then cast t (level - z) else 0))"

definition subgrid_compute :: "row \<Rightarrow> dem \<Rightarrow> string \<Rightarrow> error + result option" where
  "subgrid_compute r d method =
     (case bin_edges r of None \<Rightarrow> Inr None
      | Some be \<Rightarrow>
          (let dem_i = row_window r d in
           bind (num_col r ''vol1'') (\<lambda>vol_i.
           case cum_volume_table r of None \<Rightarrow> Inl TypeError | Some cvt \<Rightarrow>
           bind (target_level be (volume_table r) cvt
                   (real (n_pixels dem_i) * (dxp d * dyp d)) vol_i) (\<lambda>level.
           if method = ''waterlevel'' then Inr (Some (Level level))
           else if method = ''waterdepth''
           then Inr (Some (Depth (map (map (depth_px (band_dtype d) level)) dem_i)))
           else Inl UnboundLocalError))))"

section \<open>The table builder: build_tables\<close>

text \<open>
  \<open>a.min()\<close> and \<open>a.max()\<close> raise ValueError on an array without elements.
\<close>

definition arr_min :: "'a::linorder list \<Rightarrow> error + 'a" where
  "arr_min xs = (case xs of [] \<Rightarrow> Inl ValueError | x # ys \<Rightarrow> Inr (fold min ys x))"

definition arr_max :: "'a::linorder list \<Rightarrow> error + 'a" where
  "arr_max xs = (case xs of [] \<Rightarrow> Inl ValueError | x # ys \<Rightarrow> Inr (fold max ys x))"

text \<open>\<open>np.cumsum\<close> and \<open>np.diff\<close>\<close>

fun cumsum_from :: "'a::monoid_add \<Rightarrow> 'a list \<Rightarrow> 'a list" where
  "cumsum_from acc [] = []"
| "cumsum_from acc (x # xs) = (acc + x) # cumsum_from (acc + x) xs"

definition cumsum :: "'a::monoid_add list \<Rightarrow> 'a list" where
  "cumsum xs = cumsum_from 0 xs"

definition diff :: "real list \<Rightarrow> real list" where
  "diff es = map (\<lambda>(a, b). b - a) (zip es (tl es))"

text \<open>
  \<open>np.histogram(a, bins=n)\<close> on the flattened array, as numpy documents and implements
  it. The outer edges are the least and the greatest value, widened by one half on each
  side when they are equal, and 0 and 1 for an array without elements. The edges are
  \<open>n + 1\<close> equally spaced points. All bins are half-open but the last one, which holds
  the greatest value too.
\<close>

definition outer_edges :: "real list \<Rightarrow> real \<times> real" where
  "outer_edges xs =
     (case xs of [] \<Rightarrow> (0, 1)
      | x # ys \<Rightarrow>
          (if fold min ys x = fold max ys x
           then (fold min ys x - 1 / 2, fold max ys x + 1 / 2)
           else (fold min ys x, fold max ys x)))"

definition linspace :: "real \<Rightarrow> real \<Rightarrow> nat \<Rightarrow> real list" where
  "linspace first_edge last_edge n =
     map (\<lambda>i. first_edge + real i * ((last_edge - first_edge) / real n)) [0..<n + 1]"

definition bin_index :: "real \<Rightarrow> real \<Rightarrow> nat \<Rightarrow> real \<Rightarrow> nat" where
  "bin_index first_edge last_edge n x =
     (if x = last_edge then n - 1
      else nat \<lfloor>(x - first_edge) / (last_edge - first_edge) * real n\<rfloor>)"

definition histogram :: "real list \<Rightarrow> nat \<Rightarrow> nat list \<times> real list" where
  "histogram xs n =
     (case outer_edges xs of (first_edge, last_edge) \<Rightarrow>
        (map (\<lambda>k. length (filter (\<lambda>x. bin_index first_edge last_edge n x = k) xs)) [0..<n],
         linspace first_edge last_edge n))"

record grid =
  face_coordinates :: "(real \<times> real) list list"
  face_centers :: "(real \<times> real) list"

text \<open>\<open>dem_i.mask.any()\<close>\<close>

definition mask_any :: "raster \<Rightarrow> bool" where
  "mask_any r = list_ex (list_ex (\<lambda>p. p = None)) r"

text \<open>Lines 109 to 112: the four arrays of a valid table.\<close>

definition table_of ::
  "dem \<Rightarrow> raster \<Rightarrow> nat list \<times> real list \<times> real list \<times> real list" where
  "table_of d dem_i =
     (case histogram (map the (concat dem_i)) 20 of (npb, be) \<Rightarrow>
        (let n_cum = cumsum npb;
             vt = map (\<lambda>(c, w). \<bar>affine_a d * affine_e d\<bar> * real c * w) (zip n_cum (diff be))
         in (npb, be, vt, cumsum vt)))"

text \<open>
  One pass of the loop of build_tables (lines 97 to 129). A pixel coordinate is
  (column, row), as \<open>face_px[:, 0]\<close> and \<open>face_px[:, 1]\<close>.
\<close>

definition build_row :: "dem \<Rightarrow> nat \<Rightarrow> (real \<times> real) list \<Rightarrow> error + row" where
  "build_row d cell_id f =
     (let face_px = world2px d f in
      bind (arr_min (map snd face_px)) (\<lambda>r0.
      bind (arr_max (map snd face_px)) (\<lambda>r1.
      bind (arr_min (map fst face_px)) (\<lambda>c0.
      bind (arr_max (map fst face_px)) (\<lambda>c1.
      let dem_i = window (band d) (r0, r1) (c0, c1);
          tbl = (if mask_any dem_i then None else Some (table_of d dem_i)) in
      bind (arr_min (map fst f)) (\<lambda>x0.
      bind (arr_max (map fst f)) (\<lambda>x1.
      bind (arr_min (map snd f)) (\<lambda>y0.
      bind (arr_max (map snd f)) (\<lambda>y1.
      Inr \<lparr>row_id = cell_id,
           slice_ref = Slice (r0, r1) (c0, c1),
           face = f,
           volume_table = map_option (\<lambda>(npb, be, vt, cvt). vt) tbl,
           cum_volume_table = map_option (\<lambda>(npb, be, vt, cvt). cvt) tbl,
           n_per_bin = map_option (\<lambda>(npb, be, vt, cvt). npb) tbl,
           extent = [x0, x1, y0, y1],
           bin_edges = map_option (\<lambda>(npb, be, vt, cvt). be) tbl,
           cols = Map.empty\<rparr>)))))))))"

fun build_rows :: "dem \<Rightarrow> nat \<Rightarrow> (real \<times> real) list list \<Rightarrow> error + row list" where
  "build_rows d cell_id [] = Inr []"
| "build_rows d cell_id (f # fs) =
     bind (build_row d cell_id f) (\<lambda>r.
     bind (build_rows d (Suc cell_id) fs) (\<lambda>rs. Inr (r # rs)))"

definition build_tables :: "grid \<Rightarrow> dem \<Rightarrow> error + row list" where
  "build_tables g d = build_rows d 0 (face_coordinates g)"

section \<open>The compositor: compute_band and compute_features\<close>

record simdata =
  vol1 :: "real list"
  s1 :: "real list"
  waterdepth :: "real list"

text \<open>
  \<open>tables[name] = values\<close> adds or overwrites a column of the caller's data frame; the
  lengths must agree. The data frame is a list of rows, in index order.
\<close>

definition set_col :: "string \<Rightarrow> cellval list \<Rightarrow> row list \<Rightarrow> error + row list" where
  "set_col name vals tbl =
     (if length vals \<noteq> length tbl then Inl ValueError
      else Inr (map (\<lambda>(r, v). r\<lparr>cols := (cols r)(name \<mapsto> v)\<rparr>) (zip tbl vals)))"

text \<open>\<open>np.ma.masked_all(dem['band'].shape)\<close>\<close>

definition masked_all :: "raster \<Rightarrow> raster" where
  "masked_all b = map (map (\<lambda>_. None)) b"

text \<open>
  \<open>band[r0:r1, c0:c1] = value\<close>: a scalar is broadcast over the window, an array has the
  shape of the window (it was computed from the same window of the terrain, and the
  output band has the terrain's shape).
\<close>

definition value_at :: "result \<Rightarrow> nat \<Rightarrow> nat \<Rightarrow> pixel" where
  "value_at v i j = (case v of Level l \<Rightarrow> Some l | Depth a \<Rightarrow> a ! i ! j)"

definition assign_row :: "pixel list \<Rightarrow> int \<times> int \<Rightarrow> (nat \<Rightarrow> pixel) \<Rightarrow> pixel list" where
  "assign_row ps cs f =
     map (\<lambda>(j, p). if clip_bound (length ps) (fst cs) \<le> j \<and> j < clip_bound (length ps) (snd cs)
                    then f (j - clip_bound (length ps) (fst cs)) else p)
         (enumerate 0 ps)"

definition assign_window ::
  "raster \<Rightarrow> int \<times> int \<Rightarrow> int \<times> int \<Rightarrow> (nat \<Rightarrow> nat \<Rightarrow> pixel) \<Rightarrow> raster" where
  "assign_window b rs cs f =
     map (\<lambda>(i, ps). if clip_bound (length b) (fst rs) \<le> i \<and> i < clip_bound (length b) (snd rs)
                     then assign_row ps cs (f (i - clip_bound (length b) (fst rs))) else ps)
         (enumerate 0 b)"

text \<open>
  The loop of compute_band (lines 191 to 197) over the rows, with the band and the list
  of excluded cells as its state. \<open>row['slice']\<close> raises KeyError on an imported row.
\<close>

fun band_loop :: "dem \<Rightarrow> string \<Rightarrow> row list \<Rightarrow> raster \<times> nat list \<Rightarrow> error + raster \<times> nat list" where
  "band_loop d method [] st = Inr st"
| "band_loop d method (r # rs) (b, excluded) =
     bind (subgrid_compute r d method) (\<lambda>res.
       case res of
         None \<Rightarrow> band_loop d method rs (b, excluded @ [row_id r])
       | Some v \<Rightarrow>
           (case slice_ref r of
              SliceInts _ _ _ _ \<Rightarrow> Inl KeyError
            | Slice rws cs \<Rightarrow> band_loop d method rs (assign_window b rws cs (value_at v), excluded)))"

text \<open>
  compute_band returns the band and logs the excluded cells. It assigns a column of
  its argument \<open>tables\<close> (line 188), so the model returns the data frame as the call
  leaves it, whether or not the call then raises.
\<close>

definition compute_band ::
  "grid \<Rightarrow> dem \<Rightarrow> row list \<Rightarrow> simdata \<Rightarrow> string \<Rightarrow> row list \<times> (error + raster \<times> nat list)" where
  "compute_band g d tables data method =
     (case set_col ''vol1'' (map Num (vol1 data)) tables of
        Inl e \<Rightarrow> (tables, Inl e)
      | Inr tables1 \<Rightarrow> (tables1, band_loop d method tables1 (masked_all (band d), [])))"

fun map_err :: "('a \<Rightarrow> error + 'b) \<Rightarrow> 'a list \<Rightarrow> error + 'b list" where
  "map_err f [] = Inr []"
| "map_err f (x # xs) = bind (f x) (\<lambda>y. bind (map_err f xs) (\<lambda>ys. Inr (y # ys)))"

record feature =
  coordinates :: "real \<times> real"
  feature_id :: int
  properties :: "(string \<times> real) list"

text \<open>
  \<open>float(x)\<close> of a cell: None raises; so does an array, unless it has one element.
\<close>

definition to_float :: "cellval \<Rightarrow> error + real" where
  "to_float c =
     (case c of
        Num x \<Rightarrow> Inr x
      | Res None \<Rightarrow> Inl TypeError
      | Res (Some (Level l)) \<Rightarrow> Inr l
      | Res (Some (Depth a)) \<Rightarrow>
          (case a of [[Some x]] \<Rightarrow> Inr x | [[None]] \<Rightarrow> Inl NonFinite | _ \<Rightarrow> Inl TypeError))"

definition float_col :: "row \<Rightarrow> string \<Rightarrow> error + real" where
  "float_col r name = (case cols r name of None \<Rightarrow> Inl KeyError | Some c \<Rightarrow> to_float c)"

definition row2feature :: "string \<Rightarrow> row \<Rightarrow> error + feature" where
  "row2feature method r =
     bind (fdiv (sum_list (map fst (face r))) (real (length (face r)))) (\<lambda>cx.
     bind (fdiv (sum_list (map snd (face r))) (real (length (face r)))) (\<lambda>cy.
     bind (float_col r ''s1'') (\<lambda>s.
     bind (float_col r (''subgrid_'' @ method)) (\<lambda>sg.
     bind (float_col r ''vol1'') (\<lambda>v.
     bind (float_col r ''waterdepth'') (\<lambda>w.
     Inr \<lparr>coordinates = (cx, cy), feature_id = int (row_id r),
          properties = [(''s1'', s), (''subgrid_'' @ method, sg), (''vol1'', v),
                        (''waterdepth'', w)]\<rparr>))))))"

definition compute_features ::
  "dem \<Rightarrow> row list \<Rightarrow> simdata \<Rightarrow> string \<Rightarrow> row list \<times> (error + feature list)" where
  "compute_features d tables data method =
     (case set_col ''vol1'' (map Num (vol1 data)) tables of
        Inl e \<Rightarrow> (tables, Inl e)
      | Inr t1 \<Rightarrow>
     (case set_col ''s1'' (map Num (s1 data)) t1 of
        Inl e \<Rightarrow> (t1, Inl e)
      | Inr t2 \<Rightarrow>
     (case set_col ''waterdepth'' (map Num (waterdepth data)) t2 of
        Inl e \<Rightarrow> (t2, Inl e)
      | Inr t3 \<Rightarrow>
     (case map_err (\<lambda>r. subgrid_compute r d method) t3 of
        Inl e \<Rightarrow> (t3, Inl e)
      | Inr results \<Rightarrow>
     (case set_col (''subgrid_'' @ method) (map Res results) t3 of
        Inl e \<Rightarrow> (t3, Inl e)
      | Inr t4 \<Rightarrow> (t4, map_err (row2feature method) t4))))))"

section \<open>The table store: create_export, export_tables, import_tables\<close>

text \<open>
  The container holds six variables over fixed dimensions. A value that was never
  written is the fill value, which reading returns masked: it is \<open>None\<close> here. The
  container's type \<open>int\<close> is numpy's default integer, the type of the counts and of the
  window bounds numpy hands over, so storing them narrows nothing and the model keeps
  them unbounded.
\<close>

record container =
  dim_cells :: nat
  dim_bins :: nat
  var_bin_edges :: "real option list list"
  var_cum_volume_table :: "real option list list"
  var_volume_table :: "real option list list"
  var_extent :: "real option list list"
  var_n_per_bin :: "int option list list"
  var_slice :: "int option list list"

definition create_export :: "nat \<Rightarrow> nat \<Rightarrow> container" where
  "create_export n_cells n_bins =
     \<lparr>dim_cells = n_cells, dim_bins = n_bins,
      var_bin_edges = replicate n_cells (replicate (n_bins + 1) None),
      var_cum_volume_table = replicate n_cells (replicate n_bins None),
      var_volume_table = replicate n_cells (replicate n_bins None),
      var_extent = replicate n_cells (replicate 4 None),
      var_n_per_bin = replicate n_cells (replicate n_bins None),
      var_slice = replicate n_cells (replicate 4 None)\<rparr>"

text \<open>
  \<open>ds.variables[var][i] = val\<close>: the dimensions are fixed, so a cell index beyond them
  and a value of another width are errors.
\<close>

definition put_row :: "'a option list list \<Rightarrow> nat \<Rightarrow> 'a list \<Rightarrow> error + 'a option list list" where
  "put_row var i val =
     (if length var \<le> i then Inl IndexError
      else if length (var ! i) \<noteq> length val then Inl ValueError
      else Inr (var[i := map Some val]))"

definition put_opt ::
  "'a option list list \<Rightarrow> nat \<Rightarrow> 'a list option \<Rightarrow> error + 'a option list list" where
  "put_opt var i val = (case val of None \<Rightarrow> Inr var | Some v \<Rightarrow> put_row var i v)"

text \<open>
  One pass of the loop of export_tables (lines 266 to 278); \<open>row.slice\<close> is missing on
  an imported row.
\<close>

definition export_row :: "container \<Rightarrow> row \<Rightarrow> error + container" where
  "export_row c r =
     bind (put_opt (var_bin_edges c) (row_id r) (bin_edges r)) (\<lambda>v1.
     bind (put_opt (var_cum_volume_table c) (row_id r) (cum_volume_table r)) (\<lambda>v2.
     bind (put_opt (var_volume_table c) (row_id r) (volume_table r)) (\<lambda>v3.
     bind (put_row (var_extent c) (row_id r) (extent r)) (\<lambda>v4.
     bind (put_opt (var_n_per_bin c) (row_id r) (map_option (map int) (n_per_bin r))) (\<lambda>v5.
     case slice_ref r of
       SliceInts _ _ _ _ \<Rightarrow> Inl KeyError
     | Slice rs cs \<Rightarrow>
         bind (put_row (var_slice c) (row_id r) [fst rs, snd rs, fst cs, snd cs]) (\<lambda>v6.
         Inr (c\<lparr>var_bin_edges := v1, var_cum_volume_table := v2, var_volume_table := v3,
                 var_extent := v4, var_n_per_bin := v5, var_slice := v6\<rparr>)))))))"

fun export_tables :: "container \<Rightarrow> row list \<Rightarrow> error + container" where
  "export_tables c [] = Inr c"
| "export_tables c (r # rs) = bind (export_row c r) (\<lambda>c1. export_tables c1 rs)"

text \<open>
  A row of the data frame import_tables returns: the five arrays as read, masked where
  nothing was written, and the window as four integer columns.
\<close>

record imported_row =
  i_bin_edges :: "real option list"
  i_cum_volume_table :: "real option list"
  i_volume_table :: "real option list"
  i_extent :: "real option list"
  i_n_per_bin :: "int option list"
  slice_0 :: "int option"
  slice_1 :: "int option"
  slice_2 :: "int option"
  slice_3 :: "int option"

definition import_row :: "container \<Rightarrow> nat \<Rightarrow> error + imported_row" where
  "import_row c i =
     bind (py_index (var_slice c ! i) 0) (\<lambda>s0.
     bind (py_index (var_slice c ! i) 1) (\<lambda>s1.
     bind (py_index (var_slice c ! i) 2) (\<lambda>s2.
     bind (py_index (var_slice c ! i) 3) (\<lambda>s3.
     Inr \<lparr>i_bin_edges = var_bin_edges c ! i,
          i_cum_volume_table = var_cum_volume_table c ! i,
          i_volume_table = var_volume_table c ! i,
          i_extent = var_extent c ! i,
          i_n_per_bin = var_n_per_bin c ! i,
          slice_0 = s0, slice_1 = s1, slice_2 = s2, slice_3 = s3\<rparr>))))"

text \<open>
  The data frame is built from columns of one length, the number of cells of
  \<open>bin_edges\<close>; columns of another length are a ValueError.
\<close>

definition import_tables :: "container \<Rightarrow> error + imported_row list" where
  "import_tables c =
     (let n = length (var_bin_edges c) in
      if length (var_cum_volume_table c) = n \<and> length (var_volume_table c) = n \<and>
         length (var_extent c) = n \<and> length (var_n_per_bin c) = n \<and> length (var_slice c) = n
      then map_err (import_row c) [0..<n]
      else Inl ValueError)"

text \<open>
  The round trip as the specification words it: a row read back holds every array of a
  non-empty row as it was, every absent array as a fully masked one of the variable's
  width, the extent, and the window as the four integers row start, row stop, column
  start, column stop.
\<close>

definition as_read :: "nat \<Rightarrow> 'a list option \<Rightarrow> 'a option list" where
  "as_read width val = (case val of None \<Rightarrow> replicate width None | Some v \<Rightarrow> map Some v)"

definition window_ints :: "window_ref \<Rightarrow> int list" where
  "window_ints w =
     (case w of Slice rs cs \<Rightarrow> [fst rs, snd rs, fst cs, snd cs]
      | SliceInts a b c d \<Rightarrow> [a, b, c, d])"

definition round_trip_row :: "nat \<Rightarrow> row \<Rightarrow> imported_row" where
  "round_trip_row n_bins r =
     \<lparr>i_bin_edges = as_read (n_bins + 1) (bin_edges r),
      i_cum_volume_table = as_read n_bins (cum_volume_table r),
      i_volume_table = as_read n_bins (volume_table r),
      i_extent = map Some (extent r),
      i_n_per_bin = as_read n_bins (map_option (map int) (n_per_bin r)),
      slice_0 = Some (window_ints (slice_ref r) ! 0),
      slice_1 = Some (window_ints (slice_ref r) ! 1),
      slice_2 = Some (window_ints (slice_ref r) ! 2),
      slice_3 = Some (window_ints (slice_ref r) ! 3)\<rparr>"

section \<open>Well-formed tables and the inputs of the scenarios\<close>

text \<open>
  A volume table of the data model: as many volumes as cumulative volumes, one bin edge
  more, edges in ascending order, positive volumes and their prefix sums.
\<close>

definition table_ok :: "real list \<Rightarrow> real list \<Rightarrow> real list \<Rightarrow> bool" where
  "table_ok be vt cvt \<longleftrightarrow>
     cvt \<noteq> [] \<and> length vt = length cvt \<and> length be = length cvt + 1 \<and>
     sorted be \<and> list_all (\<lambda>x. 0 < x) vt \<and> cvt = cumsum vt"

text \<open>The observed volume of a row, as line 188 stores it.\<close>

definition with_vol :: "row \<Rightarrow> real \<Rightarrow> row" where
  "with_vol r v = r\<lparr>cols := (cols r)(''vol1'' \<mapsto> Num v)\<rparr>"

text \<open>Where the solver reads the area of the window (lines 55 and 56).\<close>

definition face_area :: "row \<Rightarrow> dem \<Rightarrow> real" where
  "face_area r d = real (n_pixels (row_window r d)) * (dxp d * dyp d)"

text \<open>A terrain whose pixel (column, row) covers the unit square at (column, row).\<close>

definition px_floor :: "(real \<times> real) list \<Rightarrow> (int \<times> int) list" where
  "px_floor f = map (\<lambda>(x, y). (\<lfloor>x\<rfloor>, \<lfloor>y\<rfloor>)) f"

definition unit_dem :: "dtype \<Rightarrow> raster \<Rightarrow> dem" where
  "unit_dem t b =
     \<lparr>band = b, band_dtype = t, affine_a = 1, affine_e = - 1, dxp = 1, dyp = 1,
      world2px = px_floor\<rparr>"

text \<open>
  The scenario of the specification: bin edges 0 to 4, cumulative volumes 10, 25, 45,
  70, a window of five pixels of area 1.
\<close>

definition scenario_dem :: "dtype \<Rightarrow> dem" where
  "scenario_dem t = unit_dem t [[Some 0, Some 1, Some 2, Some 3, Some 4]]"

definition scenario_row :: row where
  "scenario_row =
     \<lparr>row_id = 0, slice_ref = Slice (0, 1) (0, 5), face = [(0, 0), (5, 1)],
      volume_table = Some [10, 15, 20, 25], cum_volume_table = Some [10, 25, 45, 70],
      n_per_bin = Some [1, 1, 1, 2], extent = [0, 5, 0, 1],
      bin_edges = Some [0, 1, 2, 3, 4], cols = Map.empty\<rparr>"

text \<open>
  The same cell with the table the builder's formula gives for four bins and pixels of
  area 1: the volume of a bin is the count of pixels below its upper edge times its
  width.
\<close>

definition consistent_row :: row where
  "consistent_row =
     scenario_row\<lparr>volume_table := Some [1, 2, 3, 5], cum_volume_table := Some [1, 3, 6, 11]\<rparr>"

text \<open>Whether the pixel in row \<open>i\<close> and column \<open>j\<close> of a band lies in a window.\<close>

definition in_window :: "raster \<Rightarrow> window_ref \<Rightarrow> nat \<Rightarrow> nat \<Rightarrow> bool" where
  "in_window b w i j =
     (case w of
        Slice rs cs \<Rightarrow>
          clip_bound (length b) (fst rs) \<le> i \<and> i < clip_bound (length b) (snd rs) \<and>
          clip_bound (length (b ! i)) (fst cs) \<le> j \<and> j < clip_bound (length (b ! i)) (snd cs)
      | SliceInts a0 a1 a2 a3 \<Rightarrow>
          clip_bound (length b) a0 \<le> i \<and> i < clip_bound (length b) a2 \<and>
          clip_bound (length (b ! i)) a1 \<le> j \<and> j < clip_bound (length (b ! i)) a3)"

text \<open>A cell over one pixel of elevation 5, and a cell whose polygon has no width.\<close>

definition flat_dem :: dem where
  "flat_dem = unit_dem FloatDType [[Some 5]]"

definition flat_grid :: grid where
  "flat_grid = \<lparr>face_coordinates = [[(0, 0), (1, 1)]], face_centers = [(1 / 2, 1 / 2)]\<rparr>"

definition degenerate_grid :: grid where
  "degenerate_grid = \<lparr>face_coordinates = [[(0, 0), (0, 1)]], face_centers = [(0, 1 / 2)]\<rparr>"

text \<open>
  Two cells over a terrain of three pixels, the first of them masked. The window of
  cell 0 is the columns 0 and 1, the window of cell 1 the columns 1 and 2.
\<close>

definition overlap_dem :: dem where
  "overlap_dem = unit_dem FloatDType [[None, Some 1, Some 2]]"

definition overlap_grid :: grid where
  "overlap_grid =
     \<lparr>face_coordinates = [[(0, 0), (2, 1)], [(1, 0), (3, 1)]],
      face_centers = [(1, 1 / 2), (2, 1 / 2)]\<rparr>"

definition overlap_data :: simdata where
  "overlap_data = \<lparr>vol1 = [0, 61 / 20], s1 = [0, 0], waterdepth = [0, 0]\<rparr>"

text \<open>
  Notions for the round trip. A container is well shaped when each variable has a row
  per cell, of the variable's width. A row fits a container of \<open>n_bins\<close> bins when its
  arrays have the widths of the variables. \<open>row_view\<close> is row \<open>k\<close> of the container,
  variable by variable.
\<close>

definition well_shaped :: "container \<Rightarrow> bool" where
  "well_shaped c \<longleftrightarrow>
     length (var_bin_edges c) = dim_cells c \<and>
     length (var_cum_volume_table c) = dim_cells c \<and>
     length (var_volume_table c) = dim_cells c \<and>
     length (var_extent c) = dim_cells c \<and>
     length (var_n_per_bin c) = dim_cells c \<and>
     length (var_slice c) = dim_cells c \<and>
     (\<forall>x\<in>set (var_bin_edges c). length x = dim_bins c + 1) \<and>
     (\<forall>x\<in>set (var_cum_volume_table c). length x = dim_bins c) \<and>
     (\<forall>x\<in>set (var_volume_table c). length x = dim_bins c) \<and>
     (\<forall>x\<in>set (var_extent c). length x = 4) \<and>
     (\<forall>x\<in>set (var_n_per_bin c). length x = dim_bins c) \<and>
     (\<forall>x\<in>set (var_slice c). length x = 4)"

definition row_fits :: "nat \<Rightarrow> row \<Rightarrow> bool" where
  "row_fits n_bins r \<longleftrightarrow>
     (\<forall>v. bin_edges r = Some v \<longrightarrow> length v = n_bins + 1) \<and>
     (\<forall>v. cum_volume_table r = Some v \<longrightarrow> length v = n_bins) \<and>
     (\<forall>v. volume_table r = Some v \<longrightarrow> length v = n_bins) \<and>
     (\<forall>v. n_per_bin r = Some v \<longrightarrow> length v = n_bins) \<and>
     length (extent r) = 4 \<and>
     (\<exists>rs cs. slice_ref r = Slice rs cs)"

definition row_view :: "container \<Rightarrow> nat \<Rightarrow> imported_row" where
  "row_view c k =
     \<lparr>i_bin_edges = var_bin_edges c ! k,
      i_cum_volume_table = var_cum_volume_table c ! k,
      i_volume_table = var_volume_table c ! k,
      i_extent = var_extent c ! k,
      i_n_per_bin = var_n_per_bin c ! k,
      slice_0 = var_slice c ! k ! 0, slice_1 = var_slice c ! k ! 1,
      slice_2 = var_slice c ! k ! 2, slice_3 = var_slice c ! k ! 3\<rparr>"

definition unwritten :: "container \<Rightarrow> nat \<Rightarrow> bool" where
  "unwritten c k \<longleftrightarrow>
     var_bin_edges c ! k = replicate (dim_bins c + 1) None \<and>
     var_cum_volume_table c ! k = replicate (dim_bins c) None \<and>
     var_volume_table c ! k = replicate (dim_bins c) None \<and>
     var_n_per_bin c ! k = replicate (dim_bins c) None"

section \<open>The calls over the objects of the caller\<close>

text \<open>
  Python passes objects by reference. The objects a caller holds live in a store, a
  list of objects addressed by position. A call is given addresses; it reads and
  writes the store statement by statement, as the source does, and returns the store as
  it leaves it together with its result or the exception raised. A new object is put
  at the end of the store. A slice of the terrain is a view of it; the source reads
  through such views and never assigns through one.
\<close>

datatype obj =
  OGrid grid | ODem dem | OTables "row list" | OData simdata | OBand raster
  | OFeatures "feature list"

type_synonym store = "obj list"
type_synonym 'a prog = "store \<Rightarrow> store \<times> (error + 'a)"

definition ret_st :: "'a \<Rightarrow> 'a prog" where
  "ret_st x h = (h, Inr x)"

definition raise_st :: "error \<Rightarrow> 'a prog" where
  "raise_st e h = (h, Inl e)"

text \<open>A computation on values, which touches no object.\<close>

definition lift_st :: "error + 'a \<Rightarrow> 'a prog" where
  "lift_st r h = (h, r)"

text \<open>One statement after another; an exception ends the call and keeps the store.\<close>

definition bind_st :: "'a prog \<Rightarrow> ('a \<Rightarrow> 'b prog) \<Rightarrow> 'b prog" where
  "bind_st m f h = (case m h of (h1, Inl e) \<Rightarrow> (h1, Inl e) | (h1, Inr x) \<Rightarrow> f x h1)"

definition load :: "nat \<Rightarrow> obj prog" where
  "load a h = (h, if a < length h then Inr (h ! a) else Inl KeyError)"

definition store_at :: "nat \<Rightarrow> obj \<Rightarrow> unit prog" where
  "store_at a x h = (if a < length h then (h[a := x], Inr ()) else (h, Inl KeyError))"

definition alloc :: "obj \<Rightarrow> nat prog" where
  "alloc x h = (h @ [x], Inr (length h))"

definition the_grid :: "nat \<Rightarrow> grid prog" where
  "the_grid a = bind_st (load a) (\<lambda>x. case x of OGrid g \<Rightarrow> ret_st g | _ \<Rightarrow> raise_st TypeError)"

definition the_dem :: "nat \<Rightarrow> dem prog" where
  "the_dem a = bind_st (load a) (\<lambda>x. case x of ODem d \<Rightarrow> ret_st d | _ \<Rightarrow> raise_st TypeError)"

definition the_tables :: "nat \<Rightarrow> row list prog" where
  "the_tables a =
     bind_st (load a) (\<lambda>x. case x of OTables t \<Rightarrow> ret_st t | _ \<Rightarrow> raise_st TypeError)"

definition the_data :: "nat \<Rightarrow> simdata prog" where
  "the_data a = bind_st (load a) (\<lambda>x. case x of OData dt \<Rightarrow> ret_st dt | _ \<Rightarrow> raise_st TypeError)"

definition the_band :: "nat \<Rightarrow> raster prog" where
  "the_band a = bind_st (load a) (\<lambda>x. case x of OBand b \<Rightarrow> ret_st b | _ \<Rightarrow> raise_st TypeError)"

text \<open>
  build_tables (lines 83 to 134): the faces are read from the mesh, each pass reads the
  terrain and appends a record to a list of its own, and the data frame made of the
  list is a new object. A frame made of no record has no column \<open>id\<close>, and
  \<open>set_index('id')\<close> raises KeyError on it (line 133).
\<close>

fun build_rows_st :: "nat \<Rightarrow> nat \<Rightarrow> (real \<times> real) list list \<Rightarrow> row list prog" where
  "build_rows_st d_a cell_id [] = ret_st []"
| "build_rows_st d_a cell_id (f # fs) =
     bind_st (the_dem d_a) (\<lambda>d.
     bind_st (lift_st (build_row d cell_id f)) (\<lambda>r.
     bind_st (build_rows_st d_a (Suc cell_id) fs) (\<lambda>rs.
     ret_st (r # rs))))"

definition build_tables_st :: "nat \<Rightarrow> nat \<Rightarrow> nat prog" where
  "build_tables_st g_a d_a =
     bind_st (the_grid g_a) (\<lambda>g.
     bind_st (build_rows_st d_a 0 (face_coordinates g)) (\<lambda>rows.
     if rows = [] then raise_st KeyError else alloc (OTables rows)))"

text \<open>\<open>tables.loc[face_idx]\<close>: the row of that index.\<close>

definition loc :: "row list \<Rightarrow> nat \<Rightarrow> error + row" where
  "loc t face_idx =
     (case find (\<lambda>r. row_id r = face_idx) t of None \<Rightarrow> Inl KeyError | Some r \<Rightarrow> Inr r)"

text \<open>\<open>tables[name] = values\<close> on the data frame the caller passed (lines 145 to 147, 155, 188).\<close>

definition assign_col :: "nat \<Rightarrow> string \<Rightarrow> cellval list \<Rightarrow> unit prog" where
  "assign_col t_a name vals =
     bind_st (the_tables t_a) (\<lambda>t.
     bind_st (lift_st (set_col name vals t)) (\<lambda>t1.
     store_at t_a (OTables t1)))"

text \<open>
  compute_band (lines 180 to 199). The band is a new object (line 186); the loop reads
  the row from the data frame and the terrain, and assigns to the band only (line 197).
  The call returns the band; the excluded cells, which it logs, are returned with it.
\<close>

fun band_loop_st ::
  "nat \<Rightarrow> nat \<Rightarrow> nat \<Rightarrow> string \<Rightarrow> nat list \<Rightarrow> nat list \<Rightarrow> nat list prog" where
  "band_loop_st d_a t_a b_a method [] excluded = ret_st excluded"
| "band_loop_st d_a t_a b_a method (face_idx # faces) excluded =
     bind_st (the_tables t_a) (\<lambda>t.
     bind_st (lift_st (loc t face_idx)) (\<lambda>r.
     bind_st (the_dem d_a) (\<lambda>d.
     bind_st (lift_st (subgrid_compute r d method)) (\<lambda>res.
       case res of
         None \<Rightarrow> band_loop_st d_a t_a b_a method faces (excluded @ [face_idx])
       | Some v \<Rightarrow>
           (case slice_ref r of
              SliceInts _ _ _ _ \<Rightarrow> raise_st KeyError
            | Slice rws cs \<Rightarrow>
                bind_st (the_band b_a) (\<lambda>b.
                bind_st (store_at b_a (OBand (assign_window b rws cs (value_at v)))) (\<lambda>_.
                band_loop_st d_a t_a b_a method faces excluded)))))))"

definition compute_band_st ::
  "nat \<Rightarrow> nat \<Rightarrow> nat \<Rightarrow> nat \<Rightarrow> string \<Rightarrow> (nat \<times> nat list) prog" where
  "compute_band_st g_a d_a t_a data_a method =
     bind_st (the_tables t_a) (\<lambda>t.
     bind_st (the_dem d_a) (\<lambda>d.
     bind_st (alloc (OBand (masked_all (band d)))) (\<lambda>b_a.
     bind_st (the_data data_a) (\<lambda>data.
     bind_st (assign_col t_a ''vol1'' (map Num (vol1 data))) (\<lambda>_.
     bind_st (band_loop_st d_a t_a b_a method (map row_id t) []) (\<lambda>excluded.
     ret_st (b_a, excluded)))))))"

text \<open>
  compute_features (lines 137 to 177): three columns of the data frame are assigned
  from the observed data, every cell is solved into a list of the call's own, the list
  is assigned as a fourth column, and the features made of the rows are a new object.
  The progress bars of both calls, the registration of the bar with pandas (line 141)
  and the log line of compute_band (line 198) touch none of these objects and are left
  out.
\<close>

fun solve_loop_st :: "nat \<Rightarrow> nat \<Rightarrow> string \<Rightarrow> nat list \<Rightarrow> result option list prog" where
  "solve_loop_st d_a t_a method [] = ret_st []"
| "solve_loop_st d_a t_a method (face_idx # faces) =
     bind_st (the_tables t_a) (\<lambda>t.
     bind_st (lift_st (loc t face_idx)) (\<lambda>r.
     bind_st (the_dem d_a) (\<lambda>d.
     bind_st (lift_st (subgrid_compute r d method)) (\<lambda>res.
     bind_st (solve_loop_st d_a t_a method faces) (\<lambda>results.
     ret_st (res # results))))))"

definition compute_features_st :: "nat \<Rightarrow> nat \<Rightarrow> nat \<Rightarrow> string \<Rightarrow> nat prog" where
  "compute_features_st d_a t_a data_a method =
     bind_st (the_tables t_a) (\<lambda>t.
     bind_st (the_data data_a) (\<lambda>data.
     bind_st (assign_col t_a ''vol1'' (map Num (vol1 data))) (\<lambda>_.
     bind_st (the_data data_a) (\<lambda>data.
     bind_st (assign_col t_a ''s1'' (map Num (s1 data))) (\<lambda>_.
     bind_st (the_data data_a) (\<lambda>data.
     bind_st (assign_col t_a ''waterdepth'' (map Num (waterdepth data))) (\<lambda>_.
     bind_st (solve_loop_st d_a t_a method (map row_id t)) (\<lambda>results.
     bind_st (assign_col t_a (''subgrid_'' @ method) (map Res results)) (\<lambda>_.
     bind_st (the_tables t_a) (\<lambda>t4.
     bind_st (lift_st (map_err (row2feature method) t4)) (\<lambda>features.
     alloc (OFeatures features))))))))))))"

text \<open>
  What a call may have written: the store has grown at most, and every object it held
  is as it was, those at the addresses named apart.
\<close>

definition unchanged_but :: "nat set \<Rightarrow> store \<Rightarrow> store \<Rightarrow> bool" where
  "unchanged_but S h h' \<longleftrightarrow> length h \<le> length h' \<and> (\<forall>a<length h. a \<notin> S \<longrightarrow> h' ! a = h ! a)"

text \<open>The objects of the scenario: mesh, terrain, tables and observed data.\<close>

definition scenario_store :: store where
  "scenario_store =
     [OGrid \<lparr>face_coordinates = [[(0, 0), (5, 1)]], face_centers = [(5 / 2, 1 / 2)]\<rparr>,
      ODem (scenario_dem FloatDType),
      OTables [scenario_row],
      OData \<lparr>vol1 = [30], s1 = [9 / 4], waterdepth = [1]\<rparr>]"

text \<open>A program that, from any store, writes at most at the addresses named.\<close>

definition writes_only :: "nat set \<Rightarrow> 'a prog \<Rightarrow> bool" where
  "writes_only S m \<longleftrightarrow> (\<forall>h. unchanged_but S h (fst (m h)))"

text \<open>Row \<open>k\<close> with the observed data of cell \<open>k\<close> in its columns.\<close>

definition observed :: "simdata \<Rightarrow> nat \<Rightarrow> row \<Rightarrow> row" where
  "observed dt k r =
     r\<lparr>cols := (cols r)(''vol1'' \<mapsto> Num (vol1 dt ! k), ''s1'' \<mapsto> Num (s1 dt ! k),
                          ''waterdepth'' \<mapsto> Num (waterdepth dt ! k))\<rparr>"

section \<open>The bisection\<close>

lemma bisect_loop_bounds:
  "lo \<le> hi \<Longrightarrow> lo \<le> bisect_loop a x lo hi \<and> bisect_loop a x lo hi \<le> hi"
proof (induction a x lo hi rule: bisect_loop.induct)
  case (1 a x lo hi)
  show ?case
  proof (cases "lo < hi")
    case False
    with 1(3) show ?thesis by (simp add: bisect_loop.simps)
  next
    case True
    let ?mid = "(lo + hi) div 2"
    from True have m: "lo \<le> ?mid" "?mid < hi" by auto
    show ?thesis
    proof (cases "x < a ! ?mid")
      case l: True
      from 1(1)[OF True l] m have "lo \<le> bisect_loop a x lo ?mid \<and> bisect_loop a x lo ?mid \<le> ?mid"
        by simp
      with True l m show ?thesis by (subst (1 2) bisect_loop.simps) simp
    next
      case l: False
      from 1(2)[OF True l] m
      have "?mid + 1 \<le> bisect_loop a x (?mid + 1) hi \<and> bisect_loop a x (?mid + 1) hi \<le> hi"
        by simp
      with True l m show ?thesis by (subst (1 2) bisect_loop.simps) simp
    qed
  qed
qed

lemma bisect_le_length: "bisect a x \<le> length a"
  using bisect_loop_bounds [of 0 "length a" a x] by (simp add: bisect_def)

lemma bisect_loop_spec:
  "sorted a \<Longrightarrow> lo \<le> hi \<Longrightarrow> hi \<le> length a \<Longrightarrow>
   (\<forall>i<lo. a ! i \<le> x) \<Longrightarrow> (\<forall>i. hi \<le> i \<and> i < length a \<longrightarrow> x < a ! i) \<Longrightarrow>
   (\<forall>i<bisect_loop a x lo hi. a ! i \<le> x) \<and>
   (\<forall>i. bisect_loop a x lo hi \<le> i \<and> i < length a \<longrightarrow> x < a ! i)"
proof (induction a x lo hi rule: bisect_loop.induct)
  case (1 a x lo hi)
  show ?case
  proof (cases "lo < hi")
    case False
    with 1(4) have "lo = hi" by simp
    with False 1(6,7) show ?thesis by (simp add: bisect_loop.simps)
  next
    case True
    let ?mid = "(lo + hi) div 2"
    from True have m: "lo \<le> ?mid" "?mid < hi" by auto
    show ?thesis
    proof (cases "x < a ! ?mid")
      case l: True
      have up: "\<forall>i. ?mid \<le> i \<and> i < length a \<longrightarrow> x < a ! i"
      proof (intro allI impI)
        fix i assume i: "?mid \<le> i \<and> i < length a"
        with 1(3) have "a ! ?mid \<le> a ! i" by (simp add: sorted_iff_nth_mono)
        with l show "x < a ! i" by simp
      qed
      from m 1(5) have "?mid \<le> length a" by simp
      from 1(1)[OF True l 1(3) m(1) this 1(6) up]
      show ?thesis using True l by (subst (1 2) bisect_loop.simps) simp
    next
      case l: False
      have low: "\<forall>i<?mid + 1. a ! i \<le> x"
      proof (intro allI impI)
        fix i assume i: "i < ?mid + 1"
        with 1(3) m 1(5) have "a ! i \<le> a ! ?mid" by (simp add: sorted_iff_nth_mono)
        with l show "a ! i \<le> x" by simp
      qed
      from m have "?mid + 1 \<le> hi" by simp
      from 1(2)[OF True l 1(3) this 1(5) low 1(7)]
      show ?thesis using True l by (subst (1 2) bisect_loop.simps) simp
    qed
  qed
qed

lemma bisect_spec:
  assumes "sorted a"
  shows "(\<forall>i<bisect a x. a ! i \<le> x) \<and> (\<forall>i. bisect a x \<le> i \<and> i < length a \<longrightarrow> x < a ! i)"
  using bisect_loop_spec [OF assms, of 0 "length a" x] by (simp add: bisect_def)

lemma bisect_mono:
  assumes "sorted a" "v1 \<le> v2"
  shows "bisect a v1 \<le> bisect a v2"
proof (rule ccontr)
  assume "\<not> bisect a v1 \<le> bisect a v2"
  then have lt: "bisect a v2 < bisect a v1" by simp
  with bisect_spec [OF assms(1), of v1] have "a ! bisect a v2 \<le> v1" by blast
  moreover from lt bisect_le_length [of a v1] have "bisect a v2 < length a" by simp
  with bisect_spec [OF assms(1), of v2] have "v2 < a ! bisect a v2" by blast
  ultimately show False using assms(2) by simp
qed

section \<open>The level solver\<close>

lemma py_index_last: "xs \<noteq> [] \<Longrightarrow> py_index xs (- 1) = Inr (last xs)"
  by (cases xs rule: rev_cases) (simp_all add: py_index_def Let_def nth_append)

lemma py_index_nat: "i < length xs \<Longrightarrow> py_index xs (int i) = Inr (xs ! i)"
  by (simp add: py_index_def Let_def)

lemma py_index_Suc: "i + 1 < length xs \<Longrightarrow> py_index xs (int i + 1) = Inr (xs ! (i + 1))"
  using py_index_nat [of "i + 1" xs] by (simp add: add.commute)

lemma py_index_prev:
  assumes "xs \<noteq> []" "k \<le> length xs"
  shows "py_index xs (int k - 1) = Inr (if k = 0 then last xs else xs ! (k - 1))"
proof (cases k)
  case 0
  with py_index_last [OF assms(1)] show ?thesis by simp
next
  case (Suc j)
  with assms(2) have "j < length xs" by simp
  from py_index_nat [OF this] Suc show ?thesis by simp
qed

lemma target_level_flat:
  assumes "cvt \<noteq> []" "be \<noteq> []" "area \<noteq> 0" "overflow (bisect cvt v) cvt"
  shows "target_level be vt cvt area v = Inr (last be + (v - last cvt) / area)"
  using assms py_index_prev [OF assms(1) bisect_le_length [of cvt v]]
  by (simp add: target_level_def Let_def bind_def py_index_last fdiv_def)

lemma target_level_interp:
  assumes "length vt = length cvt" "length be = length cvt + 1"
    "\<not> overflow (bisect cvt v) cvt" "vt ! bisect cvt v \<noteq> 0"
  shows "target_level be (Some vt) cvt area v =
     Inr (be ! bisect cvt v +
          (v - (if bisect cvt v = 0 then last cvt else cvt ! (bisect cvt v - 1)))
            / vt ! bisect cvt v * (be ! (bisect cvt v + 1) - be ! bisect cvt v))"
proof -
  let ?k = "bisect cvt v"
  from assms(3) have k: "?k + 1 < length cvt" by (simp add: overflow_def)
  then have ne: "cvt \<noteq> []" by auto
  from k have kl: "?k \<le> length cvt" by simp
  from k assms(1,2) have i1: "py_index vt (int ?k) = Inr (vt ! ?k)"
    and i2: "py_index be (int ?k) = Inr (be ! ?k)"
    and i3: "py_index be (int ?k + 1) = Inr (be ! (?k + 1))"
    by (simp_all add: py_index_nat py_index_Suc)
  show ?thesis
    using assms(3,4) py_index_prev [OF ne kl] i1 i2 i3
    by (simp add: target_level_def Let_def bind_def fdiv_def)
qed

lemma subgrid_compute_level:
  assumes "bin_edges r = Some be" "cum_volume_table r = Some cvt" "cols r ''vol1'' = Some (Num v)"
  shows "subgrid_compute r d ''waterlevel'' =
     bind (target_level be (volume_table r) cvt (face_area r d) v) (\<lambda>l. Inr (Some (Level l)))"
  using assms by (simp add: subgrid_compute_def num_col_def bind_def face_area_def Let_def)

lemma subgrid_compute_depth:
  assumes "bin_edges r = Some be" "cum_volume_table r = Some cvt" "cols r ''vol1'' = Some (Num v)"
  shows "subgrid_compute r d ''waterdepth'' =
     bind (target_level be (volume_table r) cvt (face_area r d) v)
       (\<lambda>l. Inr (Some (Depth (map (map (depth_px (band_dtype d) l)) (row_window r d)))))"
  using assms by (simp add: subgrid_compute_def num_col_def bind_def face_area_def Let_def)

text \<open>
  Claim C10. A row whose \<open>bin_edges\<close> is None makes subgrid_compute return None, for the
  method "waterlevel", for the method "waterdepth" and for any other, without an error
  and whatever the terrain is: the terrain is not read.
\<close>

theorem empty_table_gives_None:
  assumes "bin_edges r = None"
  shows "subgrid_compute r d ''waterlevel'' = Inr None \<and>
         subgrid_compute r d ''waterdepth'' = Inr None \<and>
         (\<forall>d' method. subgrid_compute r d' method = Inr None)"
  using assms by (simp add: subgrid_compute_def)

theorem empty_table_gives_None_witness:
  "bin_edges (scenario_row\<lparr>bin_edges := None\<rparr>) = None \<and>
   subgrid_compute (scenario_row\<lparr>bin_edges := None\<rparr>) (scenario_dem FloatDType) ''waterlevel''
     = Inr None \<and>
   subgrid_compute (scenario_row\<lparr>bin_edges := None\<rparr>) (scenario_dem FloatDType) ''waterdepth''
     = Inr None"
  using empty_table_gives_None [of "scenario_row\<lparr>bin_edges := None\<rparr>" "scenario_dem FloatDType"]
  by simp

lemma scenario_bisect:
  "bisect [10, 25, 45, 70] 5 = 0" "bisect [10, 25, 45, 70] 30 = 2"
  "bisect [10, 25, 45, 70] 50 = 3" "bisect [10, 25, 45, 70] 100 = 4"
  by (simp_all add: bisect_def bisect_loop.simps)

lemma scenario_face_area: "face_area (with_vol scenario_row v) (scenario_dem t) = 5"
  by (simp add: face_area_def with_vol_def scenario_row_def scenario_dem_def unit_dem_def
      row_window_def window_def py_slice_def clip_bound_def n_pixels_def)

lemma scenario_fields:
  "bin_edges (with_vol scenario_row v) = Some [0, 1, 2, 3, 4]"
  "volume_table (with_vol scenario_row v) = Some [10, 15, 20, 25]"
  "cum_volume_table (with_vol scenario_row v) = Some [10, 25, 45, 70]"
  "cols (with_vol scenario_row v) ''vol1'' = Some (Num v)"
  by (simp_all add: with_vol_def scenario_row_def)

lemma scenario_level_30:
  "subgrid_compute (with_vol scenario_row 30) (scenario_dem FloatDType) ''waterlevel''
     = Inr (Some (Level (9 / 4)))"
  by (simp add: subgrid_compute_level [OF scenario_fields(1,3,4)] scenario_fields
      scenario_face_area target_level_def scenario_bisect overflow_def py_index_def
      bind_def fdiv_def)

text \<open>
  Claim C1. Within a bin the level is the lower edge plus the fraction of the bin's
  volume that is filled, times the bin's width, where the volume below bin 0 is 0. The
  solver reads \<open>cum_volume_table[fill_idx - 1]\<close>, which at \<open>fill_idx = 0\<close> is the last
  entry of the table, not 0. In the scenario, the observed volume 5 lies in bin 0 and
  the interpolation branch is taken; the level returned is \<open>0 + (5 - 70) / 10 = - 13 / 2\<close>,
  where the claim gives \<open>0 + (5 - 0) / 10 = 1 / 2\<close>.
\<close>

theorem first_bin_reads_last_cumulative_volume:
  "bisect [10, 25, 45, 70] 5 = 0 \<and> \<not> overflow 0 [10, 25, 45, 70] \<and>
   subgrid_compute (with_vol scenario_row 5) (scenario_dem FloatDType) ''waterlevel''
     = Inr (Some (Level (- (13 / 2)))) \<and>
   (0 + (5 - 0) / 10 * (1 - 0) :: real) = 1 / 2"
  by (simp add: subgrid_compute_level [OF scenario_fields(1,3,4)] scenario_fields
      scenario_face_area target_level_def scenario_bisect overflow_def py_index_def
      bind_def fdiv_def)

lemma overflow_iff_sorted:
  assumes "sorted cvt" "2 \<le> length cvt"
  shows "overflow (bisect cvt v) cvt \<longleftrightarrow> cvt ! (length cvt - 2) \<le> v"
proof
  assume "overflow (bisect cvt v) cvt"
  with assms(2) have "length cvt - 2 < bisect cvt v" by (simp add: overflow_def)
  with bisect_spec [OF assms(1), of v] show "cvt ! (length cvt - 2) \<le> v" by blast
next
  assume le: "cvt ! (length cvt - 2) \<le> v"
  show "overflow (bisect cvt v) cvt"
  proof (rule ccontr)
    assume "\<not> overflow (bisect cvt v) cvt"
    with assms(2) have "bisect cvt v \<le> length cvt - 2 \<and> length cvt - 2 < length cvt"
      unfolding overflow_def by linarith
    with bisect_spec [OF assms(1), of v] have "v < cvt ! (length cvt - 2)" by blast
    with le show False by simp
  qed
qed

text \<open>
  In the scenario the observed volume 50 lies in the last bin (index 3 of 4, and 50 is
  below the capacity 70), yet the flat branch is taken; it returns
  \<open>4 + (50 - 70) / 5 = 0\<close>.
\<close>

theorem flat_branch_inside_last_bin:
  "\<not> (overflow (bisect [10, 25, 45, 70] 50) [10, 25, 45, 70]
        \<longleftrightarrow> length [10, 25, 45, 70 :: real] \<le> bisect [10, 25, 45, 70] 50) \<and>
   \<not> (last [10, 25, 45, 70 :: real] < 50) \<and>
   subgrid_compute (with_vol scenario_row 50) (scenario_dem FloatDType) ''waterlevel''
     = Inr (Some (Level 0))"
  by (simp add: subgrid_compute_level [OF scenario_fields(1,3,4)] scenario_fields
      scenario_face_area target_level_def scenario_bisect overflow_def py_index_def
      bind_def fdiv_def)

lemma cumsum_from_length [simp]: "length (cumsum_from a xs) = length xs"
  by (induction xs arbitrary: a) simp_all

lemma cumsum_length [simp]: "length (cumsum xs) = length xs"
  by (simp add: cumsum_def)

lemma cumsum_from_nth:
  "k < length xs \<Longrightarrow> cumsum_from a xs ! k = a + sum_list (take (Suc k) xs)"
proof (induction xs arbitrary: a k)
  case Nil
  then show ?case by simp
next
  case (Cons x xs)
  show ?case
  proof (cases k)
    case 0
    then show ?thesis by simp
  next
    case (Suc j)
    with Cons.prems have "j < length xs" by simp
    from Cons.IH [OF this, of "a + x"] Suc show ?thesis by (simp add: add.assoc)
  qed
qed

lemma cumsum_nth: "k < length xs \<Longrightarrow> cumsum xs ! k = sum_list (take (Suc k) xs)"
  by (simp add: cumsum_def cumsum_from_nth)

lemma cumsum_step:
  assumes "Suc k < length xs"
  shows "cumsum xs ! Suc k = cumsum xs ! k + xs ! Suc k"
proof -
  from assms have "take (Suc (Suc k)) xs = take (Suc k) xs @ [xs ! Suc k]"
    by (simp add: take_Suc_conv_app_nth)
  with assms show ?thesis by (simp add: cumsum_nth)
qed

lemma cumsum_last: "xs \<noteq> [] \<Longrightarrow> last (cumsum xs) = sum_list xs"
proof -
  assume ne: "xs \<noteq> []"
  then have "cumsum xs \<noteq> []" by (metis cumsum_length length_0_conv)
  then have "last (cumsum xs) = cumsum xs ! (length xs - 1)"
    by (simp add: last_conv_nth)
  with ne show ?thesis by (simp add: cumsum_nth)
qed

lemma cumsum_strict:
  fixes xs :: "real list"
  assumes "list_all (\<lambda>x. 0 < x) xs" "i < j" "j < length xs"
  shows "cumsum xs ! i < cumsum xs ! j"
  using assms(2,3)
proof (induction j)
  case 0
  then show ?case by simp
next
  case (Suc j)
  from assms(1) Suc.prems(2) have p: "0 < xs ! Suc j" by (simp add: list_all_length)
  from cumsum_step [OF Suc.prems(2)] p have s: "cumsum xs ! j < cumsum xs ! Suc j" by simp
  show ?case
  proof (cases "i = j")
    case True
    with s show ?thesis by simp
  next
    case False
    with Suc.prems have "i < j" "j < length xs" by simp_all
    from Suc.IH [OF this] s show ?thesis by simp
  qed
qed

lemma target_level_mono:
  assumes ok: "table_ok be vt cvt" and area: "0 < area"
    and lastbin: "length cvt = 1 \<or> last vt \<le> area * (last be - be ! (length cvt - 1))"
    and le: "v1 \<le> v2"
  shows "\<exists>l1 l2. target_level be (Some vt) cvt area v1 = Inr l1 \<and>
                 target_level be (Some vt) cvt area v2 = Inr l2 \<and> l1 \<le> l2"
proof -
  let ?n = "length cvt"
  from ok have ne: "cvt \<noteq> []" and lv: "length vt = ?n" and lb: "length be = ?n + 1"
    and sb: "sorted be" and pos: "list_all (\<lambda>x. 0 < x) vt" and cs: "cvt = cumsum vt"
    unfolding table_ok_def by blast+
  from lb have be_ne: "be \<noteq> []" by auto
  from ne have n1: "1 \<le> ?n" by (cases cvt) simp_all
  have vpos: "0 < vt ! k" if "k < ?n" for k
    using pos lv that by (simp add: list_all_length)
  have strict: "cvt ! i < cvt ! j" if "i < j" "j < ?n" for i j
    using cumsum_strict [OF pos that(1)] that(2) unfolding cs by simp
  have srt: "sorted cvt"
    unfolding sorted_iff_nth_mono_less using strict by (auto intro: less_imp_le)
  have step: "cvt ! Suc k = cvt ! k + vt ! Suc k" if "Suc k < ?n" for k
    using cumsum_step [of k vt] that unfolding cs by simp
  from ne have lastc: "last cvt = cvt ! (?n - 1)" by (simp add: last_conv_nth)
  from be_ne lb have lastb: "last be = be ! ?n" by (simp add: last_conv_nth)
  from ne lv have "vt \<noteq> []" by auto
  with lv have lastv: "last vt = vt ! (?n - 1)" by (simp add: last_conv_nth)
  have bmono: "be ! i \<le> be ! j" if "i \<le> j" "j \<le> ?n" for i j
    using sb lb that by (simp add: sorted_iff_nth_mono)
  define F where "F v = last be + (v - last cvt) / area" for v
  define G where "G v = be ! bisect cvt v +
      (v - (if bisect cvt v = 0 then last cvt else cvt ! (bisect cvt v - 1)))
        / vt ! bisect cvt v * (be ! (bisect cvt v + 1) - be ! bisect cvt v)" for v
  define L where "L v = (if overflow (bisect cvt v) cvt then F v else G v)" for v
  have val: "target_level be (Some vt) cvt area v = Inr (L v)" for v
  proof (cases "overflow (bisect cvt v) cvt")
    case True
    from area have "area \<noteq> 0" by simp
    from target_level_flat [OF ne be_ne this True, of "Some vt"] True
    show ?thesis by (simp add: L_def F_def)
  next
    case False
    then have "bisect cvt v < ?n" by (simp add: overflow_def)
    from vpos [OF this] have "vt ! bisect cvt v \<noteq> 0" by simp
    from target_level_interp [OF lv lb False this, of area] False
    show ?thesis by (simp add: L_def G_def)
  qed
  have Fmono: "F a \<le> F b" if "a \<le> b" for a b
    using that area by (simp add: F_def divide_right_mono)
  have upper: "L v \<le> be ! (bisect cvt v + 1)" if no: "\<not> overflow (bisect cvt v) cvt" for v
  proof -
    let ?k = "bisect cvt v"
    from no have k: "?k + 1 < ?n" by (simp add: overflow_def)
    have w: "0 \<le> be ! (?k + 1) - be ! ?k" using bmono [of ?k "?k + 1"] k by simp
    have vlt: "v < cvt ! ?k" using bisect_spec [OF srt, of v] k by simp
    from k have kp: "0 < vt ! ?k" by (simp add: vpos)
    have frac: "(v - (if ?k = 0 then last cvt else cvt ! (?k - 1))) / vt ! ?k \<le> 1"
    proof (cases "?k = 0")
      case True
      have "cvt ! 0 \<le> cvt ! (?n - 1)" using srt k by (simp add: sorted_iff_nth_mono)
      with vlt True lastc have "v - last cvt \<le> 0" by simp
      with kp have "(v - last cvt) / vt ! ?k \<le> 0" by (simp add: divide_le_0_iff)
      with True show ?thesis by simp
    next
      case False
      then obtain j where j: "?k = Suc j" by (cases ?k) auto
      with step [of j] k have "cvt ! ?k = cvt ! (?k - 1) + vt ! ?k" by simp
      with vlt have "v - cvt ! (?k - 1) \<le> vt ! ?k" by simp
      with kp have "(v - cvt ! (?k - 1)) / vt ! ?k \<le> 1" by (simp add: divide_le_eq)
      with False show ?thesis by simp
    qed
    from mult_right_mono [OF frac w] no show ?thesis by (simp add: L_def G_def)
  qed
  have lower: "be ! min (bisect cvt v) (?n - 1) \<le> L v"
    if k1: "1 \<le> bisect cvt v" and n2: "2 \<le> ?n" for v
  proof (cases "overflow (bisect cvt v) cvt")
    case False
    let ?k = "bisect cvt v"
    from False have k: "?k + 1 < ?n" by (simp add: overflow_def)
    then have m: "min ?k (?n - 1) = ?k" by simp
    have w: "0 \<le> be ! (?k + 1) - be ! ?k" using bmono [of ?k "?k + 1"] k by simp
    from k have kp: "0 < vt ! ?k" by (simp add: vpos)
    from k1 have "?k - 1 < ?k" by simp
    with bisect_spec [OF srt, of v] have "cvt ! (?k - 1) \<le> v" by blast
    with kp have "0 \<le> (v - cvt ! (?k - 1)) / vt ! ?k" by simp
    from mult_nonneg_nonneg [OF this w] k1 False m show ?thesis by (simp add: L_def G_def)
  next
    case True
    let ?k = "bisect cvt v"
    from True have "?n - 1 \<le> ?k" by (simp add: overflow_def)
    then have m: "min ?k (?n - 1) = ?n - 1" by simp
    from overflow_iff_sorted [OF srt n2, of v] True have c: "cvt ! (?n - 2) \<le> v" by simp
    from n2 have "Suc (?n - 2) = ?n - 1" by simp
    with step [of "?n - 2"] n2 have "cvt ! (?n - 1) = cvt ! (?n - 2) + vt ! (?n - 1)" by simp
    with c lastc have d: "- vt ! (?n - 1) \<le> v - last cvt" by simp
    from lastbin n2 lastv lastb have "vt ! (?n - 1) \<le> area * (be ! ?n - be ! (?n - 1))" by simp
    with d have "- (area * (be ! ?n - be ! (?n - 1))) \<le> v - last cvt" by simp
    then have "(be ! (?n - 1) - be ! ?n) * area \<le> v - last cvt"
      by (simp add: algebra_simps)
    with area have "be ! (?n - 1) - be ! ?n \<le> (v - last cvt) / area"
      by (simp add: le_divide_eq)
    then have "- (be ! ?n - be ! (?n - 1)) \<le> (v - last cvt) / area" by simp
    with True m lastb show ?thesis by (simp add: L_def F_def)
  qed
  have mono: "L v1 \<le> L v2"
  proof -
    let ?k1 = "bisect cvt v1" and ?k2 = "bisect cvt v2"
    have kk: "?k1 \<le> ?k2" by (rule bisect_mono [OF srt le])
    consider (both) "overflow ?k1 cvt" | (same) "\<not> overflow ?k1 cvt" "?k1 = ?k2"
      | (diff) "\<not> overflow ?k1 cvt" "?k1 < ?k2"
      using kk by linarith
    then show ?thesis
    proof cases
      case both
      with kk have "overflow ?k2 cvt" by (simp add: overflow_def)
      with both Fmono [OF le] show ?thesis by (simp add: L_def)
    next
      case same
      from same(1) have k: "?k1 + 1 < ?n" by (simp add: overflow_def)
      have w: "0 \<le> be ! (?k1 + 1) - be ! ?k1" using bmono [of ?k1 "?k1 + 1"] k by simp
      from k have kp: "0 < vt ! ?k1" by (simp add: vpos)
      let ?c = "if ?k1 = 0 then last cvt else cvt ! (?k1 - 1)"
      from le kp have "(v1 - ?c) / vt ! ?k1 \<le> (v2 - ?c) / vt ! ?k1"
        by (simp add: divide_right_mono)
      from mult_right_mono [OF this w] have "G v1 \<le> G v2"
        unfolding G_def same(2) [symmetric] by simp
      moreover from same have "\<not> overflow ?k2 cvt" by simp
      ultimately show ?thesis using same(1) by (simp add: L_def)
    next
      case diff
      from diff(1) have k: "?k1 + 1 < ?n" by (simp add: overflow_def)
      then have n2: "2 \<le> ?n" by simp
      from diff(2) have "1 \<le> ?k2" by simp
      note lower [OF this n2]
      moreover note upper [OF diff(1)]
      moreover have "be ! (?k1 + 1) \<le> be ! min ?k2 (?n - 1)"
        using bmono [of "?k1 + 1" "min ?k2 (?n - 1)"] diff(2) k by simp
      ultimately show ?thesis by linarith
    qed
  qed
  from val [of v1] val [of v2] mono show ?thesis by blast
qed

lemma with_vol_fields:
  "bin_edges (with_vol r v) = bin_edges r"
  "volume_table (with_vol r v) = volume_table r"
  "cum_volume_table (with_vol r v) = cum_volume_table r"
  "slice_ref (with_vol r v) = slice_ref r"
  "row_id (with_vol r v) = row_id r"
  "cols (with_vol r v) ''vol1'' = Some (Num v)"
  by (simp_all add: with_vol_def)

lemma with_vol_window: "row_window (with_vol r v) d = row_window r d"
  by (simp add: row_window_def with_vol_fields)

lemma with_vol_face_area: "face_area (with_vol r v) d = face_area r d"
  by (simp add: face_area_def with_vol_window)

text \<open>
  Claim C3, as the code has it. The level is non-decreasing in the observed volume for a
  table of the data model (ascending edges, positive volumes and their prefix sums) over
  a window of positive area, provided the last bin holds no more volume than the whole
  window filled over the last bin's width, as in every table the builder makes, where
  all pixels of the window lie below the last edge. A table of one bin needs no
  proviso. The solver then returns a level for every observed volume.
\<close>

theorem level_monotone_in_volume:
  assumes "bin_edges r = Some be" "volume_table r = Some vt" "cum_volume_table r = Some cvt"
    "table_ok be vt cvt" "0 < face_area r d"
    "length cvt = 1 \<or> last vt \<le> face_area r d * (last be - be ! (length cvt - 1))"
    "v1 \<le> v2"
  shows "\<exists>l1 l2. subgrid_compute (with_vol r v1) d ''waterlevel'' = Inr (Some (Level l1)) \<and>
                 subgrid_compute (with_vol r v2) d ''waterlevel'' = Inr (Some (Level l2)) \<and>
                 l1 \<le> l2"
proof -
  from target_level_mono [OF assms(4,5,6,7)] obtain l1 l2
    where l: "target_level be (Some vt) cvt (face_area r d) v1 = Inr l1"
      "target_level be (Some vt) cvt (face_area r d) v2 = Inr l2" "l1 \<le> l2"
    by blast
  have "subgrid_compute (with_vol r v) d ''waterlevel''
          = bind (target_level be (Some vt) cvt (face_area r d) v) (\<lambda>l. Inr (Some (Level l)))"
    for v
    using subgrid_compute_level [of "with_vol r v" be cvt v d] assms(1,2,3)
    by (simp add: with_vol_fields with_vol_face_area)
  with l show ?thesis by (simp add: bind_def)
qed

lemma consistent_fields:
  "bin_edges consistent_row = Some [0, 1, 2, 3, 4]"
  "volume_table consistent_row = Some [1, 2, 3, 5]"
  "cum_volume_table consistent_row = Some [1, 3, 6, 11]"
  by (simp_all add: consistent_row_def scenario_row_def)

lemma consistent_face_area: "face_area consistent_row (scenario_dem t) = 5"
  by (simp add: face_area_def consistent_row_def scenario_row_def scenario_dem_def unit_dem_def
      row_window_def window_def py_slice_def clip_bound_def n_pixels_def)

theorem level_monotone_in_volume_witness:
  "table_ok [0, 1, 2, 3, 4] [1, 2, 3, 5] [1, 3, 6, 11] \<and>
   0 < face_area consistent_row (scenario_dem FloatDType) \<and>
   last [1, 2, 3, 5 :: real]
     \<le> face_area consistent_row (scenario_dem FloatDType)
         * (last [0, 1, 2, 3, 4] - [0, 1, 2, 3, 4] ! (length [1, 3, 6, 11 :: real] - 1)) \<and>
   (2 :: real) \<le> 7 \<and>
   (\<exists>l1 l2. subgrid_compute (with_vol consistent_row 2) (scenario_dem FloatDType) ''waterlevel''
               = Inr (Some (Level l1)) \<and>
            subgrid_compute (with_vol consistent_row 7) (scenario_dem FloatDType) ''waterlevel''
               = Inr (Some (Level l2)) \<and> l1 \<le> l2)"
proof -
  have t: "table_ok [0, 1, 2, 3, 4] [1, 2, 3, 5] [1, 3, 6, 11]"
    by (simp add: table_ok_def cumsum_def)
  have a: "0 < face_area consistent_row (scenario_dem FloatDType)"
    by (simp add: consistent_face_area)
  have b: "length [1, 3, 6, 11 :: real] = 1 \<or> last [1, 2, 3, 5 :: real]
     \<le> face_area consistent_row (scenario_dem FloatDType)
         * (last [0, 1, 2, 3, 4] - [0, 1, 2, 3, 4] ! (length [1, 3, 6, 11 :: real] - 1))"
    by (simp add: consistent_face_area)
  have c: "(2 :: real) \<le> 7" by simp
  from level_monotone_in_volume [OF consistent_fields t a b c] t a b show ?thesis by simp
qed

text \<open>
  In the scenario of the specification, with a window of area 5, the volume 30 gives
  the level \<open>9 / 4\<close> and the larger volume 50 gives the level 0.
\<close>

theorem level_drops_in_last_bin:
  "(30 :: real) \<le> 50 \<and>
   subgrid_compute (with_vol scenario_row 30) (scenario_dem FloatDType) ''waterlevel''
     = Inr (Some (Level (9 / 4))) \<and>
   subgrid_compute (with_vol scenario_row 50) (scenario_dem FloatDType) ''waterlevel''
     = Inr (Some (Level 0)) \<and>
   \<not> ((9 / 4 :: real) \<le> 0)"
  by (simp add: subgrid_compute_level [OF scenario_fields(1,3,4)] scenario_fields
      scenario_face_area target_level_def scenario_bisect overflow_def py_index_def
      bind_def fdiv_def)

lemma scenario_window:
  "row_window (with_vol scenario_row v) (scenario_dem t)
     = [[Some 0, Some 1, Some 2, Some 3, Some 4]]"
  by (simp add: with_vol_def scenario_row_def scenario_dem_def unit_dem_def
      row_window_def window_def py_slice_def clip_bound_def)

lemma scenario_dtype: "band_dtype (scenario_dem t) = t"
  by (simp add: scenario_dem_def unit_dem_def)

lemma depth_px_float: "depth_px FloatDType l p = map_option (\<lambda>z. max (l - z) 0) p"
  by (cases p) (auto simp: depth_px_def cast_def max_def)

lemma float_band_depth:
  assumes "band_dtype d = FloatDType"
    and "subgrid_compute r d ''waterlevel'' = Inr (Some (Level l))"
  shows "subgrid_compute r d ''waterdepth''
           = Inr (Some (Depth (map (map (map_option (\<lambda>z. max (l - z) 0))) (row_window r d))))"
  using assms
  by (auto simp: subgrid_compute_def bind_def Let_def depth_px_float
      split: option.splits sum.splits)

text \<open>
  Claim C6. The depth of a pixel is \<open>max (level - elevation) 0\<close>, so it is zero exactly
  where the elevation is at or above the level. The solver fills \<open>zeros_like(dem_i)\<close>,
  an array of the terrain's element type, and the terrain "is sometimes int"
  (compute_band, line 185): the depths stored in it are truncated towards zero. In the
  scenario with an integer terrain the level for the volume 30 is \<open>9 / 4\<close> and the
  pixel of elevation 2 lies below it; its depth comes out as 0, where the claim gives
  \<open>1 / 4\<close>, and the depths 2 and 1 of the two lowest pixels are not
  \<open>9 / 4\<close> and \<open>5 / 4\<close>.
\<close>

theorem int_band_truncates_depth:
  "subgrid_compute (with_vol scenario_row 30) (scenario_dem IntDType) ''waterlevel''
     = Inr (Some (Level (9 / 4))) \<and>
   subgrid_compute (with_vol scenario_row 30) (scenario_dem IntDType) ''waterdepth''
     = Inr (Some (Depth [[Some 2, Some 1, Some 0, Some 0, Some 0]])) \<and>
   (2 :: real) < 9 / 4 \<and> max (9 / 4 - 2) (0 :: real) = 1 / 4"
  by (simp add: subgrid_compute_level [OF scenario_fields(1,3,4)]
      subgrid_compute_depth [OF scenario_fields(1,3,4)] scenario_fields scenario_window
      scenario_face_area target_level_def scenario_bisect overflow_def py_index_def
      bind_def fdiv_def depth_px_def cast_def trunc_def scenario_dtype)

section \<open>The table builder\<close>

lemma arr_min_Inr: "xs \<noteq> [] \<Longrightarrow> \<exists>m. arr_min xs = Inr m"
  by (cases xs) (simp_all add: arr_min_def)

lemma arr_max_Inr: "xs \<noteq> [] \<Longrightarrow> \<exists>m. arr_max xs = Inr m"
  by (cases xs) (simp_all add: arr_max_def)

lemma build_row_total:
  assumes "f \<noteq> []" "world2px d f \<noteq> []"
  shows "\<exists>r. build_row d i f = Inr r"
proof -
  from assms(2) obtain r0 r1 c0 c1 where
    "arr_min (map snd (world2px d f)) = Inr r0" "arr_max (map snd (world2px d f)) = Inr r1"
    "arr_min (map fst (world2px d f)) = Inr c0" "arr_max (map fst (world2px d f)) = Inr c1"
    using arr_min_Inr [of "map snd (world2px d f)"] arr_max_Inr [of "map snd (world2px d f)"]
      arr_min_Inr [of "map fst (world2px d f)"] arr_max_Inr [of "map fst (world2px d f)"]
    by auto
  moreover from assms(1) obtain x0 x1 y0 y1 where
    "arr_min (map fst f) = Inr x0" "arr_max (map fst f) = Inr x1"
    "arr_min (map snd f) = Inr y0" "arr_max (map snd f) = Inr y1"
    using arr_min_Inr [of "map fst f"] arr_max_Inr [of "map fst f"]
      arr_min_Inr [of "map snd f"] arr_max_Inr [of "map snd f"]
    by auto
  ultimately show ?thesis by (simp add: build_row_def bind_def Let_def)
qed

lemma build_row_fields:
  assumes "build_row d i f = Inr r"
  shows "row_id r = i \<and> face r = f \<and> cols r = Map.empty \<and>
         (\<exists>rs cs. slice_ref r = Slice rs cs) \<and>
         (if mask_any (row_window r d)
          then bin_edges r = None \<and> volume_table r = None \<and>
               cum_volume_table r = None \<and> n_per_bin r = None
          else \<exists>npb be vt cvt. table_of d (row_window r d) = (npb, be, vt, cvt) \<and>
                 n_per_bin r = Some npb \<and> bin_edges r = Some be \<and>
                 volume_table r = Some vt \<and> cum_volume_table r = Some cvt)"
proof -
  from assms obtain r0 r1 c0 c1 x0 x1 y0 y1 where
    r: "r = (let dem_i = window (band d) (r0, r1) (c0, c1);
                 tbl = (if mask_any dem_i then None else Some (table_of d dem_i)) in
       \<lparr>row_id = i,
           slice_ref = Slice (r0, r1) (c0, c1),
           face = f,
           volume_table = map_option (\<lambda>(npb, be, vt, cvt). vt) tbl,
           cum_volume_table = map_option (\<lambda>(npb, be, vt, cvt). cvt) tbl,
           n_per_bin = map_option (\<lambda>(npb, be, vt, cvt). npb) tbl,
           extent = [x0, x1, y0, y1],
           bin_edges = map_option (\<lambda>(npb, be, vt, cvt). be) tbl,
           cols = Map.empty\<rparr>)"
    by (auto simp: build_row_def bind_def Let_def split: sum.splits)
  obtain npb be vt cvt where
    t: "table_of d (window (band d) (r0, r1) (c0, c1)) = (npb, be, vt, cvt)"
    by (metis prod_cases4)
  show ?thesis
    by (simp add: r Let_def row_window_def t)
qed

lemma build_rows_total:
  "\<forall>f\<in>set fs. f \<noteq> [] \<and> world2px d f \<noteq> [] \<Longrightarrow>
   \<exists>rs. build_rows d i fs = Inr rs"
proof (induction fs arbitrary: i)
  case Nil
  then show ?case by simp
next
  case (Cons f fs)
  from Cons.prems build_row_total [of f d i] obtain r where "build_row d i f = Inr r" by auto
  moreover from Cons.IH [of "Suc i"] Cons.prems obtain rs
    where "build_rows d (Suc i) fs = Inr rs" by auto
  ultimately show ?case by (simp add: bind_def)
qed

lemma build_rows_nth:
  "build_rows d i fs = Inr rs \<Longrightarrow>
   length rs = length fs \<and> (\<forall>k<length fs. build_row d (i + k) (fs ! k) = Inr (rs ! k))"
proof (induction fs arbitrary: i rs)
  case Nil
  then show ?case by simp
next
  case (Cons f fs)
  from Cons.prems obtain r rs' where r: "build_row d i f = Inr r"
    and rs': "build_rows d (Suc i) fs = Inr rs'" and eq: "rs = r # rs'"
    by (auto simp: bind_def split: sum.splits)
  from Cons.IH [OF rs'] have len: "length rs' = length fs"
    and nth: "\<forall>k<length fs. build_row d (Suc i + k) (fs ! k) = Inr (rs' ! k)" by simp_all
  show ?case
  proof (intro conjI allI impI)
    show "length rs = length (f # fs)" using len eq by simp
  next
    fix k assume "k < length (f # fs)"
    then show "build_row d (i + k) ((f # fs) ! k) = Inr (rs ! k)"
      using r nth eq by (cases k) simp_all
  qed
qed

lemma build_tables_member:
  assumes "build_tables g d = Inr tables" "r \<in> set tables"
  shows "\<exists>i f. build_row d i f = Inr r"
proof -
  from assms(2) obtain k where k: "k < length tables" "tables ! k = r"
    by (auto simp: in_set_conv_nth)
  from assms(1) have "build_rows d 0 (face_coordinates g) = Inr tables"
    by (simp add: build_tables_def)
  from build_rows_nth [OF this] k show ?thesis by auto
qed

lemma linspace_length [simp]: "length (linspace a b n) = n + 1"
  by (simp add: linspace_def)

lemma flat_band: "band flat_dem = [[Some 5]]"
  by (simp add: flat_dem_def unit_dem_def)

lemma histogram_lengths:
  "histogram xs n = (npb, be) \<Longrightarrow> length npb = n \<and> length be = n + 1"
  by (auto simp: histogram_def linspace_def split: prod.splits)

lemma diff_length [simp]: "length (diff es) = length es - 1"
  by (simp add: diff_def)

lemma diff_nth: "Suc k < length es \<Longrightarrow> diff es ! k = es ! Suc k - es ! k"
  by (simp add: diff_def nth_tl)

lemma table_of_parts:
  assumes "table_of d w = (npb, be, vt, cvt)"
  shows "histogram (map the (concat w)) 20 = (npb, be)"
    and "vt = map (\<lambda>(c, w). \<bar>affine_a d * affine_e d\<bar> * real c * w) (zip (cumsum npb) (diff be))"
    and "cvt = cumsum vt"
    and "length npb = 20" and "length be = 21" and "length vt = 20" and "length cvt = 20"
proof -
  obtain npb' be' where h: "histogram (map the (concat w)) 20 = (npb', be')"
    by (cases "histogram (map the (concat w)) 20")
  with assms show a: "histogram (map the (concat w)) 20 = (npb, be)"
    and b: "vt = map (\<lambda>(c, w). \<bar>affine_a d * affine_e d\<bar> * real c * w)
                (zip (cumsum npb) (diff be))"
    and c: "cvt = cumsum vt"
    by (auto simp: table_of_def Let_def)
  from histogram_lengths [OF a] show l: "length npb = 20" "length be = 21" by simp_all
  with b show "length vt = 20" by simp
  with c show "length cvt = 20" by simp
qed

lemma vt_nth:
  assumes "table_of d w = (npb, be, vt, cvt)" "k < 20"
  shows "vt ! k = \<bar>affine_a d * affine_e d\<bar> * real (cumsum npb ! k) * (be ! Suc k - be ! k)"
  using table_of_parts [OF assms(1)] assms(2) by (simp add: diff_nth)

lemma cumsum_from_zeros:
  "cumsum_from (0 :: 'a :: monoid_add) (replicate n 0) = replicate n 0"
  by (induction n) simp_all

lemma cumsum_zeros: "cumsum (replicate n (0 :: 'a :: monoid_add)) = replicate n 0"
  by (simp add: cumsum_def cumsum_from_zeros)

lemma histogram_empty: "histogram [] n = (replicate n 0, linspace 0 1 n)"
  by (simp add: histogram_def outer_edges_def map_replicate_const)

lemma table_of_empty:
  assumes "concat w = []"
  shows "table_of d w = (replicate 20 0, linspace 0 1 20, replicate 20 0, replicate 20 0)"
proof -
  have l: "length (diff (linspace 0 1 20)) = 20" by simp
  have "map (\<lambda>(c, w). \<bar>affine_a d * affine_e d\<bar> * real c * w)
          (zip (replicate 20 (0 :: nat)) (diff (linspace 0 1 20))) = replicate 20 0"
    by (rule nth_equalityI) (simp_all add: l)
  moreover have "histogram (map the (concat w)) 20 = (replicate 20 0, linspace 0 1 20)"
    unfolding assms by (simp add: histogram_empty)
  ultimately show ?thesis
    by (simp add: table_of_def cumsum_zeros Let_def)
qed

lemma mask_any_iff: "mask_any w \<longleftrightarrow> None \<in> set (concat w)"
  by (auto simp: mask_any_def list_ex_iff)

text \<open>
  Claim C9, as the code has it. A cell whose window holds no pixel has no masked pixel,
  so it takes the histogram branch, and the histogram of no values is twenty empty bins
  over the range from 0 to 1. build_tables does not raise on it (nor on any cell whose
  polygon has a vertex) and gives it a table that is not empty: 21 bin edges from 0 to
  1, and zero counts, volumes and cumulative volumes.
\<close>

theorem degenerate_window_gives_zero_table:
  assumes "\<forall>f\<in>set (face_coordinates g). f \<noteq> [] \<and> world2px d f \<noteq> []"
  shows "\<exists>tables. build_tables g d = Inr tables \<and>
           (\<forall>r\<in>set tables. concat (row_window r d) = [] \<longrightarrow>
              bin_edges r = Some (linspace 0 1 20) \<and>
              n_per_bin r = Some (replicate 20 0) \<and>
              volume_table r = Some (replicate 20 0) \<and>
              cum_volume_table r = Some (replicate 20 0))"
proof -
  from build_rows_total [OF assms, of 0] obtain tables
    where t: "build_tables g d = Inr tables" by (auto simp: build_tables_def)
  have "bin_edges r = Some (linspace 0 1 20) \<and> n_per_bin r = Some (replicate 20 0) \<and>
        volume_table r = Some (replicate 20 0) \<and> cum_volume_table r = Some (replicate 20 0)"
    if r: "r \<in> set tables" and e: "concat (row_window r d) = []" for r
  proof -
    from build_tables_member [OF t r] obtain i f where "build_row d i f = Inr r" by blast
    from build_row_fields [OF this] e table_of_empty [OF e, of d]
    show ?thesis by (simp add: mask_any_iff)
  qed
  with t show ?thesis by blast
qed

lemma degenerate_tables:
  "build_tables degenerate_grid flat_dem =
     Inr [\<lparr>row_id = 0, slice_ref = Slice (0, 1) (0, 0), face = [(0, 0), (0, 1)],
           volume_table = Some (replicate 20 0), cum_volume_table = Some (replicate 20 0),
           n_per_bin = Some (replicate 20 0), extent = [0, 0, 0, 1],
           bin_edges = Some (linspace 0 1 20), cols = Map.empty\<rparr>]"
proof -
  have w: "window [[Some 5]] (0, 1) (0, 0) = [[]]"
    by (simp add: window_def py_slice_def clip_bound_def)
  have "concat [[] :: pixel list] = []" by simp
  from table_of_empty [OF this, of flat_dem] show ?thesis
    by (simp add: build_tables_def degenerate_grid_def flat_dem_def unit_dem_def px_floor_def
        build_row_def arr_min_def arr_max_def bind_def w mask_any_def Let_def)
qed

theorem degenerate_window_gives_zero_table_witness:
  "face_coordinates degenerate_grid = [[(0, 0), (0, 1)]] \<and>
   world2px flat_dem [(0, 0), (0, 1)] \<noteq> [] \<and>
   concat (row_window (hd (projr (build_tables degenerate_grid flat_dem))) flat_dem) = [] \<and>
   bin_edges (hd (projr (build_tables degenerate_grid flat_dem))) = Some (linspace 0 1 20) \<and>
   n_per_bin (hd (projr (build_tables degenerate_grid flat_dem))) = Some (replicate 20 0) \<and>
   volume_table (hd (projr (build_tables degenerate_grid flat_dem))) = Some (replicate 20 0) \<and>
   cum_volume_table (hd (projr (build_tables degenerate_grid flat_dem)))
     = Some (replicate 20 0)"
proof -
  let ?r = "hd (projr (build_tables degenerate_grid flat_dem))"
  have f: "face_coordinates degenerate_grid = [[(0, 0), (0, 1)]]"
    by (simp add: degenerate_grid_def)
  have p: "world2px flat_dem [(0, 0), (0, 1)] \<noteq> []"
    by (simp add: flat_dem_def unit_dem_def px_floor_def)
  from f p have h: "\<forall>f\<in>set (face_coordinates degenerate_grid).
      f \<noteq> [] \<and> world2px flat_dem f \<noteq> []" by simp
  have e: "concat (row_window ?r flat_dem) = []"
    by (simp add: degenerate_tables row_window_def flat_band window_def
        py_slice_def clip_bound_def)
  from degenerate_window_gives_zero_table [OF h] obtain tables
    where t: "build_tables degenerate_grid flat_dem = Inr tables"
      and z: "\<forall>r\<in>set tables. concat (row_window r flat_dem) = [] \<longrightarrow>
         bin_edges r = Some (linspace 0 1 20) \<and>
         n_per_bin r = Some (replicate 20 0) \<and>
         volume_table r = Some (replicate 20 0) \<and>
         cum_volume_table r = Some (replicate 20 0)"
    by blast
  from t have "tables \<noteq> []" by (auto simp: degenerate_tables)
  with t have "?r \<in> set tables" by simp
  with z e f p show ?thesis by blast
qed

text \<open>
  The cell of \<open>degenerate_grid\<close> has a window of one row and no column, the slice
  \<open>0:1, 0:0\<close>. Its table is not the empty one: \<open>bin_edges\<close> is not None.
\<close>

theorem degenerate_window_table_not_empty:
  "map_sum id (map bin_edges) (build_tables degenerate_grid flat_dem)
     = Inr [Some (linspace 0 1 20)] \<and>
   map_sum id (map cum_volume_table) (build_tables degenerate_grid flat_dem)
     = Inr [Some (replicate 20 0)] \<and>
   map_sum id (map slice_ref) (build_tables degenerate_grid flat_dem)
     = Inr [Slice (0, 1) (0, 0)] \<and>
   map_sum id (map bin_edges) (build_tables degenerate_grid flat_dem) \<noteq> Inr [None]"
  by (simp add: degenerate_tables row_window_def flat_band window_def
      py_slice_def clip_bound_def)

lemma upt_20: "[0..<20] = [0,1,2,3,4,5,6,7,8,9,10,11,12,13,14,15,16,17,18,19]"
  by code_simp

lemma upt_21: "[0..<21] = [0,1,2,3,4,5,6,7,8,9,10,11,12,13,14,15,16,17,18,19,20]"
  by code_simp

lemma flat_table:
  "table_of flat_dem [[Some 5]] =
     ([0, 0, 0, 0, 0, 0, 0, 0, 0, 0, 1, 0, 0, 0, 0, 0, 0, 0, 0, 0],
      [9 / 2, 91 / 20, 23 / 5, 93 / 20, 47 / 10, 19 / 4, 24 / 5, 97 / 20,
        49 / 10, 99 / 20, 5, 101 / 20, 51 / 10, 103 / 20, 26 / 5, 21 / 4,
        53 / 10, 107 / 20, 27 / 5, 109 / 20, 11 / 2],
      [0, 0, 0, 0, 0, 0, 0, 0, 0, 0, 1 / 20, 1 / 20, 1 / 20, 1 / 20, 1 / 20, 1 / 20, 1 / 20,
       1 / 20, 1 / 20, 1 / 20],
      [0, 0, 0, 0, 0, 0, 0, 0, 0, 0, 1 / 20, 1 / 10, 3 / 20, 1 / 5, 1 / 4,
        3 / 10, 7 / 20, 2 / 5, 9 / 20, 1 / 2])"
  by (simp add: table_of_def histogram_def outer_edges_def linspace_def bin_index_def
      upt_20 upt_21 cumsum_def diff_def flat_dem_def unit_dem_def)

lemma overlap_table:
  "table_of overlap_dem [[Some 1, Some 2]] =
     ([1, 0, 0, 0, 0, 0, 0, 0, 0, 0, 0, 0, 0, 0, 0, 0, 0, 0, 0, 1],
      [1, 21 / 20, 11 / 10, 23 / 20, 6 / 5, 5 / 4, 13 / 10, 27 / 20, 7 / 5, 29 / 20, 3 / 2,
       31 / 20, 8 / 5, 33 / 20, 17 / 10, 7 / 4, 9 / 5, 37 / 20, 19 / 10, 39 / 20, 2],
      [1 / 20, 1 / 20, 1 / 20, 1 / 20, 1 / 20, 1 / 20, 1 / 20, 1 / 20, 1 / 20, 1 / 20,
       1 / 20, 1 / 20, 1 / 20, 1 / 20, 1 / 20, 1 / 20, 1 / 20, 1 / 20, 1 / 20, 1 / 10],
      [1 / 20, 1 / 10, 3 / 20, 1 / 5, 1 / 4, 3 / 10, 7 / 20, 2 / 5, 9 / 20,
        1 / 2, 11 / 20, 3 / 5, 13 / 20, 7 / 10, 3 / 4, 4 / 5, 17 / 20,
        9 / 10, 19 / 20, 21 / 20])"
  by (simp add: table_of_def histogram_def outer_edges_def linspace_def bin_index_def
      upt_20 upt_21 cumsum_def diff_def overlap_dem_def unit_dem_def)

lemma cumsum_sorted:
  fixes xs :: "real list"
  assumes "\<forall>k<length xs. 0 \<le> xs ! k"
  shows "sorted (cumsum xs)"
  unfolding sorted_iff_nth_Suc
proof (intro allI impI)
  fix i assume "Suc i < length (cumsum xs)"
  then have i: "Suc i < length xs" by simp
  with assms have "0 \<le> xs ! Suc i" by blast
  with cumsum_step [OF i] show "cumsum xs ! i \<le> cumsum xs ! Suc i" by simp
qed

lemma cumsum_strict_sorted:
  fixes xs :: "real list"
  assumes "\<forall>k<length xs. 0 < xs ! k"
  shows "sorted_wrt (<) (cumsum xs)"
proof -
  from assms have "list_all (\<lambda>x. 0 < x) xs" by (simp add: list_all_length)
  then show ?thesis
    unfolding sorted_wrt_iff_nth_less using cumsum_strict [of xs] by simp
qed

lemma cumsum_ge_first:
  fixes xs :: "nat list"
  assumes "k < length xs"
  shows "xs ! 0 \<le> cumsum xs ! k"
proof -
  from assms obtain x ys where "xs = x # ys" by (cases xs) auto
  with assms show ?thesis by (simp add: cumsum_nth)
qed

lemma linspace_nth:
  "k \<le> n \<Longrightarrow> linspace a b n ! k = a + real k * ((b - a) / real n)"
  by (simp add: linspace_def nth_append del: upt_Suc)

lemma fold_min_Min: "fold min ys (x :: real) = Min (set (x # ys))"
  by (simp only: Min.set_eq_fold)

lemma fold_max_Max: "fold max ys (x :: real) = Max (set (x # ys))"
  by (simp only: Max.set_eq_fold)

lemma outer_edges_le: "outer_edges xs = (a, b) \<Longrightarrow> a \<le> b"
proof (cases xs)
  case Nil
  assume "outer_edges xs = (a, b)"
  with Nil show ?thesis by (simp add: outer_edges_def)
next
  case (Cons x ys)
  assume e: "outer_edges xs = (a, b)"
  have "Min (set (x # ys)) \<le> x" "x \<le> Max (set (x # ys))" by simp_all
  then have "Min (set (x # ys)) \<le> Max (set (x # ys))" by (rule order_trans)
  with e Cons show ?thesis
    by (auto simp: outer_edges_def fold_min_Min fold_max_Max split: if_splits)
qed

lemma outer_edges_distinct:
  assumes "p \<in> set xs" "q \<in> set xs" "p \<noteq> q"
  shows "outer_edges xs = (Min (set xs), Max (set xs)) \<and> Min (set xs) < Max (set xs)"
proof -
  from assms(1) obtain x ys where c: "xs = x # ys" by (cases xs) auto
  have "Min (set xs) \<le> p" "Min (set xs) \<le> q" "p \<le> Max (set xs)" "q \<le> Max (set xs)"
    using assms(1,2) by simp_all
  with assms(3) have lt: "Min (set xs) < Max (set xs)" by linarith
  with c show ?thesis by (simp add: outer_edges_def fold_min_Min fold_max_Max)
qed

lemma table_widths:
  assumes "table_of d w = (npb, be, vt, cvt)" "outer_edges (map the (concat w)) = (a, b)"
    "k < 20"
  shows "be ! Suc k - be ! k = (b - a) / 20"
proof -
  from table_of_parts(1) [OF assms(1)] assms(2) have "be = linspace a b 20"
    by (simp add: histogram_def)
  with assms(3) have h: "be ! Suc k = a + (real k + 1) * ((b - a) / 20)"
    "be ! k = a + real k * ((b - a) / 20)"
    by (simp_all add: linspace_nth)
  have ar: "(a + (x + 1) * c) - (a + x * c) = c" for x c :: real
    by (simp add: algebra_simps)
  show ?thesis by (simp only: h ar)
qed

lemma table_volumes_nonneg:
  assumes "table_of d w = (npb, be, vt, cvt)" "k < 20"
  shows "0 \<le> vt ! k"
proof -
  obtain a b where e: "outer_edges (map the (concat w)) = (a, b)"
    by (cases "outer_edges (map the (concat w))")
  from outer_edges_le [OF e] table_widths [OF assms(1) e assms(2)]
  have "0 \<le> be ! Suc k - be ! k" by simp
  with vt_nth [OF assms] show ?thesis by simp
qed

lemma first_bin_nonempty:
  assumes "xs \<noteq> []" "Min (set xs) < Max (set xs)"
  shows "0 < length (filter (\<lambda>x. bin_index (Min (set xs)) (Max (set xs)) n x = 0) xs)"
proof -
  from assms(1) have "Min (set xs) \<in> set xs" by (intro Min_in) simp_all
  moreover from assms(2)
  have "bin_index (Min (set xs)) (Max (set xs)) n (Min (set xs)) = 0"
    by (simp add: bin_index_def)
  ultimately have "Min (set xs)
      \<in> set (filter (\<lambda>x. bin_index (Min (set xs)) (Max (set xs)) n x = 0) xs)"
    by simp
  then show ?thesis by (rule length_pos_if_in_set)
qed

lemma table_volumes_pos:
  assumes t: "table_of d w = (npb, be, vt, cvt)" and k: "k < 20"
    and ae: "affine_a d * affine_e d \<noteq> 0"
    and pq: "p \<in> set (map the (concat w))" "q \<in> set (map the (concat w))" "p \<noteq> q"
  shows "0 < vt ! k"
proof -
  let ?xs = "map the (concat w)"
  let ?a = "Min (set ?xs)" and ?b = "Max (set ?xs)"
  from outer_edges_distinct [OF pq] have e: "outer_edges ?xs = (?a, ?b)" and lt: "?a < ?b"
    by simp_all
  from table_widths [OF t e k] lt have wpos: "0 < be ! Suc k - be ! k" by simp
  from pq(1) have "?xs \<noteq> []" by (metis empty_iff empty_set)
  from first_bin_nonempty [OF this lt, of 20]
  have "0 < length (filter (\<lambda>x. bin_index ?a ?b 20 x = 0) ?xs)" .
  moreover from table_of_parts(1) [OF t] e
  have "npb = map (\<lambda>k. length (filter (\<lambda>x. bin_index ?a ?b 20 x = k) ?xs)) [0..<20]"
    by (simp add: histogram_def)
  then have "npb ! 0 = length (filter (\<lambda>x. bin_index ?a ?b 20 x = 0) ?xs)"
    by (simp add: nth_map_upt del: upt_Suc)
  ultimately have "0 < npb ! 0" by simp
  moreover from k table_of_parts(4) [OF t] have "npb ! 0 \<le> cumsum npb ! k"
    by (intro cumsum_ge_first) simp
  ultimately have "0 < real (cumsum npb ! k)" by simp
  with ae wpos vt_nth [OF t k] show ?thesis by simp
qed

lemma in_set_map_the: "Some p \<in> set xs \<Longrightarrow> p \<in> set (map the xs)"
  by (metis image_eqI option.sel set_map)

lemma valid_row_table:
  assumes "build_tables g d = Inr tables" "r \<in> set tables" "cum_volume_table r = Some cvt"
  shows "\<not> mask_any (row_window r d) \<and>
         (\<exists>npb be vt. table_of d (row_window r d) = (npb, be, vt, cvt) \<and>
            n_per_bin r = Some npb \<and> bin_edges r = Some be \<and> volume_table r = Some vt)"
proof -
  from build_tables_member [OF assms(1,2)] obtain i f where "build_row d i f = Inr r" by blast
  from build_row_fields [OF this] assms(3) show ?thesis
    by (auto split: if_splits)
qed

text \<open>
  Claim C7, as the code has it. In every valid table of build_tables the cumulative
  volume table is the running sum of the volume table: entry \<open>k\<close> is the sum of the
  volumes of the bins 0 to \<open>k\<close>, and the last entry is the sum of all. It is ascending;
  it is strictly ascending when the pixel area is not zero and the window holds two
  different elevations. (Over a window of one elevation the histogram puts every pixel
  in bin 10 of 20, and the bins below hold no volume.)
\<close>

theorem cumulative_volume_is_running_sum:
  assumes "build_tables g d = Inr tables" "r \<in> set tables"
    "volume_table r = Some vt" "cum_volume_table r = Some cvt"
  shows "length cvt = length vt \<and>
         (\<forall>k<length cvt. cvt ! k = sum_list (take (Suc k) vt)) \<and>
         last cvt = sum_list vt \<and>
         sorted cvt \<and>
         (affine_a d * affine_e d \<noteq> 0 \<and>
          (\<exists>p q. Some p \<in> set (concat (row_window r d)) \<and>
                 Some q \<in> set (concat (row_window r d)) \<and> p \<noteq> q)
          \<longrightarrow> sorted_wrt (<) cvt)"
proof -
  from valid_row_table [OF assms(1,2,4)] assms(3) obtain npb be
    where t: "table_of d (row_window r d) = (npb, be, vt, cvt)" by auto
  note p = table_of_parts [OF t]
  from p(3,6) have len: "length cvt = length vt" by simp
  from p(3) have nth: "\<forall>k<length cvt. cvt ! k = sum_list (take (Suc k) vt)"
    by (simp add: cumsum_nth)
  from p(6) have "vt \<noteq> []" by auto
  with p(3) have lst: "last cvt = sum_list vt" by (simp add: cumsum_last)
  from table_volumes_nonneg [OF t] p(6) have "\<forall>k<length vt. 0 \<le> vt ! k" by simp
  with p(3) have srt: "sorted cvt" by (simp add: cumsum_sorted)
  have strict: "sorted_wrt (<) cvt"
    if ae: "affine_a d * affine_e d \<noteq> 0"
      and pq: "Some p \<in> set (concat (row_window r d))"
        "Some q \<in> set (concat (row_window r d))" "p \<noteq> q" for p q
  proof -
    from pq(1) have p': "p \<in> set (map the (concat (row_window r d)))"
      by (rule in_set_map_the)
    from pq(2) have q': "q \<in> set (map the (concat (row_window r d)))"
      by (rule in_set_map_the)
    from table_volumes_pos [OF t _ ae p' q' pq(3)] p(6)
    have "\<forall>k<length vt. 0 < vt ! k" by simp
    with p(3) show ?thesis by (simp add: cumsum_strict_sorted)
  qed
  from len nth lst srt strict show ?thesis by blast
qed

lemma overlap_tables:
  "build_tables overlap_grid overlap_dem =
     Inr [\<lparr>row_id = 0, slice_ref = Slice (0, 1) (0, 2), face = [(0, 0), (2, 1)],
           volume_table = None, cum_volume_table = None, n_per_bin = None,
           extent = [0, 2, 0, 1], bin_edges = None, cols = Map.empty\<rparr>,
          \<lparr>row_id = 1, slice_ref = Slice (0, 1) (1, 3), face = [(1, 0), (3, 1)],
           volume_table = Some [1 / 20, 1 / 20, 1 / 20, 1 / 20, 1 / 20, 1 / 20, 1 / 20, 1 / 20,
             1 / 20, 1 / 20, 1 / 20, 1 / 20, 1 / 20, 1 / 20, 1 / 20, 1 / 20, 1 / 20, 1 / 20,
             1 / 20, 1 / 10],
           cum_volume_table = Some [1 / 20, 1 / 10, 3 / 20, 1 / 5, 1 / 4, 3 / 10, 7 / 20,
             2 / 5, 9 / 20, 1 / 2, 11 / 20, 3 / 5, 13 / 20, 7 / 10, 3 / 4, 4 / 5, 17 / 20,
             9 / 10, 19 / 20, 21 / 20],
           n_per_bin = Some [1, 0, 0, 0, 0, 0, 0, 0, 0, 0, 0, 0, 0, 0, 0, 0, 0, 0, 0, 1],
           extent = [1, 3, 0, 1],
           bin_edges = Some [1, 21 / 20, 11 / 10, 23 / 20, 6 / 5, 5 / 4, 13 / 10, 27 / 20,
             7 / 5, 29 / 20, 3 / 2, 31 / 20, 8 / 5, 33 / 20, 17 / 10, 7 / 4, 9 / 5, 37 / 20,
             19 / 10, 39 / 20, 2],
           cols = Map.empty\<rparr>]"
proof -
  have b: "band overlap_dem = [[None, Some 1, Some 2]]" "world2px overlap_dem = px_floor"
    by (simp_all add: overlap_dem_def unit_dem_def)
  have w: "window [[None, Some 1, Some 2]] (0, 1) (0, 2) = [[None, Some 1]]"
    "window [[None, Some 1, Some 2]] (0, 1) (1, 3) = [[Some 1, Some 2]]"
    by (simp_all add: window_def py_slice_def clip_bound_def)
  show ?thesis
    by (simp add: build_tables_def overlap_grid_def b px_floor_def
        build_row_def arr_min_def arr_max_def bind_def w mask_any_def Let_def overlap_table)
qed

lemma flat_tables:
  "build_tables flat_grid flat_dem =
     Inr [\<lparr>row_id = 0, slice_ref = Slice (0, 1) (0, 1), face = [(0, 0), (1, 1)],
           volume_table = Some [0, 0, 0, 0, 0, 0, 0, 0, 0, 0, 1 / 20, 1 / 20, 1 / 20, 1 / 20,
             1 / 20, 1 / 20, 1 / 20, 1 / 20, 1 / 20, 1 / 20],
           cum_volume_table = Some [0, 0, 0, 0, 0, 0, 0, 0, 0, 0, 1 / 20, 1 / 10, 3 / 20,
             1 / 5, 1 / 4, 3 / 10, 7 / 20, 2 / 5, 9 / 20, 1 / 2],
           n_per_bin = Some [0, 0, 0, 0, 0, 0, 0, 0, 0, 0, 1, 0, 0, 0, 0, 0, 0, 0, 0, 0],
           extent = [0, 1, 0, 1],
           bin_edges = Some [9 / 2, 91 / 20, 23 / 5, 93 / 20, 47 / 10, 19 / 4, 24 / 5,
             97 / 20, 49 / 10, 99 / 20, 5, 101 / 20, 51 / 10, 103 / 20, 26 / 5, 21 / 4,
             53 / 10, 107 / 20, 27 / 5, 109 / 20, 11 / 2],
           cols = Map.empty\<rparr>]"
proof -
  have b: "world2px flat_dem = px_floor"
    by (simp add: flat_dem_def unit_dem_def)
  have w: "window [[Some 5]] (0, 1) (0, 1) = [[Some 5]]"
    by (simp add: window_def py_slice_def clip_bound_def)
  show ?thesis
    by (simp add: build_tables_def flat_grid_def b flat_band px_floor_def
        build_row_def arr_min_def arr_max_def bind_def w mask_any_def Let_def flat_table)
qed

theorem cumulative_volume_is_running_sum_witness:
  "affine_a overlap_dem * affine_e overlap_dem \<noteq> 0 \<and>
   Some 1 \<in> set (concat (row_window (projr (build_tables overlap_grid overlap_dem) ! 1)
                     overlap_dem)) \<and>
   Some 2 \<in> set (concat (row_window (projr (build_tables overlap_grid overlap_dem) ! 1)
                     overlap_dem)) \<and>
   sorted_wrt (<) (the (cum_volume_table (projr (build_tables overlap_grid overlap_dem) ! 1))) \<and>
   last (the (cum_volume_table (projr (build_tables overlap_grid overlap_dem) ! 1)))
     = sum_list (the (volume_table (projr (build_tables overlap_grid overlap_dem) ! 1)))"
proof -
  let ?tables = "projr (build_tables overlap_grid overlap_dem)"
  let ?r = "?tables ! 1"
  have t: "build_tables overlap_grid overlap_dem = Inr ?tables"
    by (simp add: overlap_tables)
  have m: "?r \<in> set ?tables" by (simp add: overlap_tables)
  have v: "volume_table ?r = Some (the (volume_table ?r))"
    and c: "cum_volume_table ?r = Some (the (cum_volume_table ?r))"
    by (simp_all add: overlap_tables)
  have ae: "affine_a overlap_dem * affine_e overlap_dem \<noteq> 0"
    by (simp add: overlap_dem_def unit_dem_def)
  have b: "band overlap_dem = [[None, Some 1, Some 2]]"
    by (simp add: overlap_dem_def unit_dem_def)
  have w: "concat (row_window ?r overlap_dem) = [Some 1, Some 2]"
    by (simp add: overlap_tables row_window_def b window_def py_slice_def clip_bound_def)
  have pq: "Some 1 \<in> set (concat (row_window ?r overlap_dem))"
    "Some 2 \<in> set (concat (row_window ?r overlap_dem))"
    by (simp_all only: w) simp_all
  have ne: "(1 :: real) \<noteq> 2" by simp
  from cumulative_volume_is_running_sum [OF t m v c] ae pq ne
  show ?thesis by blast
qed

text \<open>
  The cell of \<open>flat_grid\<close> lies over one pixel. Its table is valid, and its cumulative
  volume table begins with ten zeros.
\<close>

theorem flat_window_table_not_strictly_increasing:
  "map_sum id (map cum_volume_table) (build_tables flat_grid flat_dem)
     = Inr [Some [0, 0, 0, 0, 0, 0, 0, 0, 0, 0, 1 / 20, 1 / 10, 3 / 20,
             1 / 5, 1 / 4, 3 / 10, 7 / 20, 2 / 5, 9 / 20, 1 / 2]] \<and>
   \<not> sorted_wrt (<) [0, 0, 0, 0, 0, 0, 0, 0, 0, 0, 1 / 20, 1 / 10, 3 / 20,
             1 / 5, 1 / 4, 3 / 10, 7 / 20, 2 / 5, 9 / 20, 1 / (2 :: real)]"
  by (simp add: flat_tables)

section \<open>The compositor and its effects\<close>

lemma set_col_nth:
  assumes "set_col name vals t = Inr t'"
  shows "length t' = length t \<and> length vals = length t \<and>
         (\<forall>k<length t. t' ! k = (t ! k)\<lparr>cols := (cols (t ! k))(name \<mapsto> vals ! k)\<rparr>)"
  using assms by (auto simp: set_col_def split: if_splits)

lemma assign_row_length [simp]: "length (assign_row ps cs f) = length ps"
  by (simp add: assign_row_def)

lemma assign_window_length [simp]: "length (assign_window b rs cs f) = length b"
  by (simp add: assign_window_def)

lemma assign_window_shape [simp]: "map length (assign_window b rs cs f) = map length b"
  by (rule nth_equalityI) (simp_all add: assign_window_def nth_enumerate_eq)

lemma assign_window_outside:
  assumes "i < length b" "j < length (b ! i)" "\<not> in_window b (Slice rs cs) i j"
  shows "assign_window b rs cs f ! i ! j = b ! i ! j"
  using assms
  by (auto simp: assign_window_def assign_row_def in_window_def nth_enumerate_eq)

lemma shape_nth:
  assumes "map length b' = map length b" "i < length b"
  shows "length (b' ! i) = length (b ! i)"
proof -
  from assms(1) have l: "length b' = length b" by (metis length_map)
  from assms(1) have "map length b' ! i = map length b ! i" by simp
  with assms(2) l show ?thesis by simp
qed

lemma in_window_shape:
  assumes "map length b' = map length b" "i < length b"
  shows "in_window b' w i j = in_window b w i j"
proof -
  from assms(1) have "length b' = length b" by (metis length_map)
  with shape_nth [OF assms] show ?thesis by (cases w) (simp_all add: in_window_def)
qed

lemma masked_all_shape [simp]: "map length (masked_all b) = map length b"
  by (simp add: masked_all_def)

lemma masked_all_nth:
  "i < length b \<Longrightarrow> j < length (b ! i) \<Longrightarrow> masked_all b ! i ! j = None"
  by (simp add: masked_all_def)

lemma subgrid_compute_None_iff:
  "subgrid_compute r d m = Inr None \<longleftrightarrow> bin_edges r = None"
  by (auto simp: subgrid_compute_def bind_def Let_def split: option.splits sum.splits)

lemma band_loop_frame:
  "band_loop d m rs (b, ex) = Inr (b', ex') \<Longrightarrow>
     map length b' = map length b \<and> set ex \<subseteq> set ex' \<and>
     (\<forall>r\<in>set rs. bin_edges r = None \<longrightarrow> row_id r \<in> set ex') \<and>
     (\<forall>i j. i < length b \<longrightarrow> j < length (b ! i) \<longrightarrow>
        (\<forall>r\<in>set rs. bin_edges r \<noteq> None \<longrightarrow> \<not> in_window b (slice_ref r) i j) \<longrightarrow>
        b' ! i ! j = b ! i ! j)"
proof (induction rs arbitrary: b ex)
  case Nil
  then show ?case by simp
next
  case (Cons r rs)
  from Cons.prems obtain res where sc: "subgrid_compute r d m = Inr res"
    by (auto simp: bind_def split: sum.splits)
  show ?case
  proof (cases res)
    case None
    with sc have be: "bin_edges r = None" by (simp add: subgrid_compute_None_iff)
    from Cons.prems sc None
    have "band_loop d m rs (b, ex @ [row_id r]) = Inr (b', ex')" by (simp add: bind_def)
    from Cons.IH [OF this] be show ?thesis by auto
  next
    case (Some v)
    with sc have be: "bin_edges r \<noteq> None" using subgrid_compute_None_iff [of r d m] by auto
    from Cons.prems sc Some obtain rws cs where sl: "slice_ref r = Slice rws cs"
      and bl: "band_loop d m rs (assign_window b rws cs (value_at v), ex) = Inr (b', ex')"
      by (auto simp: bind_def split: window_ref.splits)
    let ?b1 = "assign_window b rws cs (value_at v)"
    note ih = Cons.IH [OF bl]
    from ih have shape: "map length b' = map length b" by simp
    from ih have ex: "set ex \<subseteq> set ex'" by simp
    from ih be have mem: "\<forall>r'\<in>set (r # rs). bin_edges r' = None \<longrightarrow> row_id r' \<in> set ex'"
      by auto
    have pix: "b' ! i ! j = b ! i ! j"
      if i: "i < length b" and j: "j < length (b ! i)"
        and out: "\<forall>r'\<in>set (r # rs). bin_edges r' \<noteq> None \<longrightarrow> \<not> in_window b (slice_ref r') i j"
      for i j
    proof -
      from out be sl have "\<not> in_window b (Slice rws cs) i j" by simp
      from assign_window_outside [OF i j this] have 1: "?b1 ! i ! j = b ! i ! j" .
      have s1: "map length ?b1 = map length b" by simp
      from i have i1: "i < length ?b1" by simp
      from j shape_nth [OF s1 i] have j1: "j < length (?b1 ! i)" by simp
      from out in_window_shape [OF s1 i]
      have "\<forall>r'\<in>set rs. bin_edges r' \<noteq> None \<longrightarrow> \<not> in_window ?b1 (slice_ref r') i j"
        by simp
      with ih i1 j1 have "b' ! i ! j = ?b1 ! i ! j" by blast
      with 1 show ?thesis by simp
    qed
    from shape ex mem pix show ?thesis by blast
  qed
qed

lemma band_loop_skips_empty:
  assumes "bin_edges r = None"
  shows "band_loop d m (r # rs) (b, ex) = band_loop d m rs (b, ex @ [row_id r])"
proof -
  from assms have "subgrid_compute r d m = Inr None" by (simp add: subgrid_compute_None_iff)
  then show ?thesis by (simp add: bind_def)
qed

lemma overlap_band_fields:
  "band overlap_dem = [[None, Some 1, Some 2]]" "band_dtype overlap_dem = FloatDType"
  "dxp overlap_dem = 1" "dyp overlap_dem = 1"
  by (simp_all add: overlap_dem_def unit_dem_def)

lemma overlap_bisect:
  "bisect [1 / 20, 1 / 10, 3 / 20, 1 / 5, 1 / 4, 3 / 10, 7 / 20, 2 / 5, 9 / 20, 1 / 2,
           11 / 20, 3 / 5, 13 / 20, 7 / 10, 3 / 4, 4 / 5, 17 / 20, 9 / 10, 19 / 20, 21 / 20]
          (61 / 20) = 20"
  by (simp add: bisect_def bisect_loop.simps)

lemma overlap_band:
  "snd (compute_band overlap_grid overlap_dem (projr (build_tables overlap_grid overlap_dem))
          overlap_data ''waterdepth'')
     = Inr ([[None, Some 2, Some 1]], [0])"
  by (simp add: overlap_tables compute_band_def set_col_def overlap_data_def bind_def
      subgrid_compute_def num_col_def row_window_def overlap_band_fields window_def
      py_slice_def clip_bound_def n_pixels_def target_level_def overlap_bisect overflow_def
      py_index_def fdiv_def depth_px_def cast_def masked_all_def assign_window_def
      assign_row_def value_at_def Let_def)

lemma compute_band_masked_cell:
  assumes r: "r \<in> set tables" and be: "bin_edges r = None"
    and cb: "compute_band g d tables data m = (t, Inr (b, ex))"
  shows "row_id r \<in> set ex \<and>
         (\<forall>i j. i < length (band d) \<longrightarrow> j < length (band d ! i) \<longrightarrow>
            (\<forall>r'\<in>set tables. bin_edges r' \<noteq> None \<longrightarrow> \<not> in_window (band d) (slice_ref r') i j)
            \<longrightarrow> b ! i ! j = None)"
proof -
  from cb obtain t1 where sc: "set_col ''vol1'' (map Num (vol1 data)) tables = Inr t1"
    and bl: "band_loop d m t1 (masked_all (band d), []) = Inr (b, ex)"
    by (auto simp: compute_band_def split: sum.splits)
  note n = set_col_nth [OF sc]
  note fr = band_loop_frame [OF bl]
  from r obtain k where k: "k < length tables" "tables ! k = r" by (auto simp: in_set_conv_nth)
  from k n have "k < length t1" by simp
  then have "t1 ! k \<in> set t1" by (rule nth_mem)
  moreover from k n be have "bin_edges (t1 ! k) = None" "row_id (t1 ! k) = row_id r"
    by simp_all
  ultimately have "t1 ! k \<in> set t1" "bin_edges (t1 ! k) = None" "row_id (t1 ! k) = row_id r"
    by simp_all
  with fr have ex: "row_id r \<in> set ex" by metis
  have pix: "b ! i ! j = None"
    if i: "i < length (band d)" and j: "j < length (band d ! i)"
      and out: "\<forall>r'\<in>set tables. bin_edges r' \<noteq> None \<longrightarrow> \<not> in_window (band d) (slice_ref r') i j"
    for i j
  proof -
    have s: "map length (masked_all (band d)) = map length (band d)" by simp
    from i have i1: "i < length (masked_all (band d))" by (simp add: masked_all_def)
    from j shape_nth [OF s i] have j1: "j < length (masked_all (band d) ! i)" by simp
    have "\<not> in_window (masked_all (band d)) (slice_ref r') i j"
      if r': "r' \<in> set t1" and ne: "bin_edges r' \<noteq> None" for r'
    proof -
      from r' obtain k' where k': "k' < length t1" "t1 ! k' = r'"
        by (auto simp: in_set_conv_nth)
      with n have kt: "k' < length tables" by simp
      with n k' have "bin_edges r' = bin_edges (tables ! k')"
        "slice_ref r' = slice_ref (tables ! k')" by auto
      with ne out kt have "\<not> in_window (band d) (slice_ref r') i j" by simp
      with in_window_shape [OF s i] show ?thesis by simp
    qed
    with fr i1 j1 have "b ! i ! j = masked_all (band d) ! i ! j" by blast
    with masked_all_nth [OF i j] show ?thesis by simp
  qed
  from ex pix show ?thesis by blast
qed

text \<open>
  Claim C5, as the code has it. build_tables does not raise on a mesh whose polygons
  have vertices, and a cell whose window holds a masked pixel gets the empty table, its
  four arrays None. The pass of compute_band over such a cell raises nothing, appends
  the cell to the excluded ones and leaves the band as it is. In the band compute_band
  returns, the cell is among the excluded, and every pixel of its window is masked
  unless the window of another cell, one with a table, covers the pixel too: windows are
  bounding boxes and may overlap, and a solved cell fills its whole window.
\<close>

theorem masked_cell_is_excluded:
  assumes "\<forall>f\<in>set (face_coordinates g). f \<noteq> [] \<and> world2px d f \<noteq> []"
  shows "\<exists>tables. build_tables g d = Inr tables \<and>
     (\<forall>r\<in>set tables. mask_any (row_window r d) \<longrightarrow>
        bin_edges r = None \<and> n_per_bin r = None \<and>
        volume_table r = None \<and> cum_volume_table r = None \<and>
        (\<forall>c m rs b ex.
           band_loop d m (r\<lparr>cols := c\<rparr> # rs) (b, ex) = band_loop d m rs (b, ex @ [row_id r])) \<and>
        (\<forall>data m t b ex. compute_band g d tables data m = (t, Inr (b, ex)) \<longrightarrow>
           row_id r \<in> set ex \<and>
           (\<forall>i j. i < length (band d) \<longrightarrow> j < length (band d ! i) \<longrightarrow>
              in_window (band d) (slice_ref r) i j \<longrightarrow>
              (\<forall>r'\<in>set tables. bin_edges r' \<noteq> None \<longrightarrow>
                 \<not> in_window (band d) (slice_ref r') i j) \<longrightarrow>
              b ! i ! j = None)))"
proof -
  from build_rows_total [OF assms, of 0] obtain tables
    where t: "build_tables g d = Inr tables" by (auto simp: build_tables_def)
  have "bin_edges r = None \<and> n_per_bin r = None \<and>
        volume_table r = None \<and> cum_volume_table r = None \<and>
        (\<forall>c m rs b ex.
           band_loop d m (r\<lparr>cols := c\<rparr> # rs) (b, ex) = band_loop d m rs (b, ex @ [row_id r])) \<and>
        (\<forall>data m t b ex. compute_band g d tables data m = (t, Inr (b, ex)) \<longrightarrow>
           row_id r \<in> set ex \<and>
           (\<forall>i j. i < length (band d) \<longrightarrow> j < length (band d ! i) \<longrightarrow>
              in_window (band d) (slice_ref r) i j \<longrightarrow>
              (\<forall>r'\<in>set tables. bin_edges r' \<noteq> None \<longrightarrow>
                 \<not> in_window (band d) (slice_ref r') i j) \<longrightarrow>
              b ! i ! j = None))"
    if r: "r \<in> set tables" and m: "mask_any (row_window r d)" for r
  proof -
    from build_tables_member [OF t r] obtain i f where "build_row d i f = Inr r" by blast
    from build_row_fields [OF this] m
    have e: "bin_edges r = None" "n_per_bin r = None" "volume_table r = None"
      "cum_volume_table r = None" by simp_all
    have s: "band_loop d m (r\<lparr>cols := c\<rparr> # rs) (b, ex) = band_loop d m rs (b, ex @ [row_id r])"
      for c m rs b ex
      using band_loop_skips_empty [of "r\<lparr>cols := c\<rparr>" d m rs b ex] e(1) by simp
    from compute_band_masked_cell [OF r e(1)] e s show ?thesis by blast
  qed
  with t show ?thesis by blast
qed

theorem masked_cell_is_excluded_witness:
  "face_coordinates overlap_grid = [[(0, 0), (2, 1)], [(1, 0), (3, 1)]] \<and>
   world2px overlap_dem [(0, 0), (2, 1)] \<noteq> [] \<and> world2px overlap_dem [(1, 0), (3, 1)] \<noteq> [] \<and>
   mask_any (row_window (projr (build_tables overlap_grid overlap_dem) ! 0) overlap_dem) \<and>
   bin_edges (projr (build_tables overlap_grid overlap_dem) ! 0) = None \<and>
   in_window (band overlap_dem)
     (slice_ref (projr (build_tables overlap_grid overlap_dem) ! 0)) 0 0 \<and>
   \<not> in_window (band overlap_dem)
     (slice_ref (projr (build_tables overlap_grid overlap_dem) ! 1)) 0 0 \<and>
   row_id (projr (build_tables overlap_grid overlap_dem) ! 0)
     \<in> set (snd (projr (snd (compute_band overlap_grid overlap_dem
          (projr (build_tables overlap_grid overlap_dem)) overlap_data ''waterdepth'')))) \<and>
   fst (projr (snd (compute_band overlap_grid overlap_dem
          (projr (build_tables overlap_grid overlap_dem)) overlap_data ''waterdepth''))) ! 0 ! 0
     = None"
proof -
  let ?tables = "projr (build_tables overlap_grid overlap_dem)"
  let ?out = "compute_band overlap_grid overlap_dem ?tables overlap_data ''waterdepth''"
  have f: "face_coordinates overlap_grid = [[(0, 0), (2, 1)], [(1, 0), (3, 1)]]"
    by (simp add: overlap_grid_def)
  have p: "world2px overlap_dem [(0, 0), (2, 1)] \<noteq> []"
    "world2px overlap_dem [(1, 0), (3, 1)] \<noteq> []"
    by (simp_all add: overlap_dem_def unit_dem_def px_floor_def)
  from f p have h: "\<forall>f\<in>set (face_coordinates overlap_grid).
      f \<noteq> [] \<and> world2px overlap_dem f \<noteq> []" by simp
  have m: "mask_any (row_window (?tables ! 0) overlap_dem)"
    by (simp add: overlap_tables row_window_def overlap_band_fields window_def py_slice_def
        clip_bound_def mask_any_def)
  have w0: "in_window (band overlap_dem) (slice_ref (?tables ! 0)) 0 0"
    and w1: "\<not> in_window (band overlap_dem) (slice_ref (?tables ! 1)) 0 0"
    by (simp_all add: overlap_tables in_window_def overlap_band_fields clip_bound_def)
  have cb: "?out = (fst ?out, Inr (fst (projr (snd ?out)), snd (projr (snd ?out))))"
    by (simp add: overlap_band prod_eq_iff)
  from masked_cell_is_excluded [OF h] obtain tables
    where t: "build_tables overlap_grid overlap_dem = Inr tables"
      and z: "\<forall>r\<in>set tables. mask_any (row_window r overlap_dem) \<longrightarrow>
        bin_edges r = None \<and> n_per_bin r = None \<and>
        volume_table r = None \<and> cum_volume_table r = None \<and>
        (\<forall>c m rs b ex.
           band_loop overlap_dem m (r\<lparr>cols := c\<rparr> # rs) (b, ex)
             = band_loop overlap_dem m rs (b, ex @ [row_id r])) \<and>
        (\<forall>data m t b ex. compute_band overlap_grid overlap_dem tables data m = (t, Inr (b, ex)) \<longrightarrow>
           row_id r \<in> set ex \<and>
           (\<forall>i j. i < length (band overlap_dem) \<longrightarrow> j < length (band overlap_dem ! i) \<longrightarrow>
              in_window (band overlap_dem) (slice_ref r) i j \<longrightarrow>
              (\<forall>r'\<in>set tables. bin_edges r' \<noteq> None \<longrightarrow>
                 \<not> in_window (band overlap_dem) (slice_ref r') i j) \<longrightarrow>
              b ! i ! j = None))"
    by blast
  from t have te: "tables = ?tables" by simp
  have r0: "?tables ! 0 \<in> set ?tables" by (simp add: overlap_tables)
  have others: "\<forall>r'\<in>set ?tables. bin_edges r' \<noteq> None \<longrightarrow>
      \<not> in_window (band overlap_dem) (slice_ref r') 0 0"
    by (simp add: overlap_tables in_window_def overlap_band_fields clip_bound_def)
  have l: "0 < length (band overlap_dem)" "0 < length (band overlap_dem ! 0)"
    by (simp_all add: overlap_band_fields)
  from z [unfolded te] r0 m have e: "bin_edges (?tables ! 0) = None"
    and c: "\<forall>data m t b ex. compute_band overlap_grid overlap_dem ?tables data m = (t, Inr (b, ex)) \<longrightarrow>
           row_id (?tables ! 0) \<in> set ex \<and>
           (\<forall>i j. i < length (band overlap_dem) \<longrightarrow> j < length (band overlap_dem ! i) \<longrightarrow>
              in_window (band overlap_dem) (slice_ref (?tables ! 0)) i j \<longrightarrow>
              (\<forall>r'\<in>set ?tables. bin_edges r' \<noteq> None \<longrightarrow>
                 \<not> in_window (band overlap_dem) (slice_ref r') i j) \<longrightarrow>
              b ! i ! j = None)"
    by blast+
  from c cb have ex: "row_id (?tables ! 0) \<in> set (snd (projr (snd ?out)))"
    and px: "\<forall>i j. i < length (band overlap_dem) \<longrightarrow> j < length (band overlap_dem ! i) \<longrightarrow>
              in_window (band overlap_dem) (slice_ref (?tables ! 0)) i j \<longrightarrow>
              (\<forall>r'\<in>set ?tables. bin_edges r' \<noteq> None \<longrightarrow>
                 \<not> in_window (band overlap_dem) (slice_ref r') i j) \<longrightarrow>
              fst (projr (snd ?out)) ! i ! j = None"
    by blast+
  from px l w0 others have "fst (projr (snd ?out)) ! 0 ! 0 = None" by blast
  with f p m e w0 w1 ex show ?thesis by blast
qed

text \<open>
  In \<open>overlap_grid\<close> the window of cell 0 is the columns 0 and 1 and holds the masked
  pixel of column 0; the window of cell 1 is the columns 1 and 2. compute_band
  excludes cell 0, and the pixel of column 1, which lies in the window of cell 0, holds
  the depth 2 that cell 1 wrote.
\<close>

theorem excluded_window_partly_filled:
  "mask_any (row_window (projr (build_tables overlap_grid overlap_dem) ! 0) overlap_dem) \<and>
   snd (compute_band overlap_grid overlap_dem (projr (build_tables overlap_grid overlap_dem))
          overlap_data ''waterdepth'')
     = Inr ([[None, Some 2, Some 1]], [0]) \<and>
   in_window (band overlap_dem)
     (slice_ref (projr (build_tables overlap_grid overlap_dem) ! 0)) 0 1 \<and>
   [[None, Some 2, Some (1 :: real)]] ! 0 ! 1 \<noteq> None"
proof -
  have "mask_any (row_window (projr (build_tables overlap_grid overlap_dem) ! 0) overlap_dem)"
    by (simp add: overlap_tables row_window_def overlap_band_fields window_def py_slice_def
        clip_bound_def mask_any_def)
  moreover have "in_window (band overlap_dem)
     (slice_ref (projr (build_tables overlap_grid overlap_dem) ! 0)) 0 1"
    by (simp add: overlap_tables in_window_def overlap_band_fields clip_bound_def)
  ultimately show ?thesis by (simp add: overlap_band)
qed

section \<open>The table store: the round trip\<close>

lemma create_export_shaped:
  "well_shaped (create_export n b)" "dim_cells (create_export n b) = n"
  "dim_bins (create_export n b) = b" "k < n \<Longrightarrow> unwritten (create_export n b) k"
  by (simp_all add: well_shaped_def create_export_def unwritten_def)

lemma put_row_ok:
  assumes "i < length var" "length (var ! i) = length val"
  shows "put_row var i val = Inr (var[i := map Some val])"
  using assms by (simp add: put_row_def)

lemma put_opt_ok:
  assumes "i < length var" "\<forall>v. val = Some v \<longrightarrow> length (var ! i) = length v"
  shows "put_opt var i val = Inr (case val of None \<Rightarrow> var | Some v \<Rightarrow> var[i := map Some v])"
  using assms by (cases val) (simp_all add: put_opt_def put_row_ok)

lemma set_update_lengths:
  assumes "\<forall>x\<in>set var. length x = w" "length y = w"
  shows "\<forall>x\<in>set (var[i := y]). length x = w"
  using assms set_update_subset_insert [of var i y] by auto

lemma stored_nth:
  assumes "i < length var"
  shows "(case val of None \<Rightarrow> var | Some v \<Rightarrow> var[i := map Some v]) ! k
           = (if k = i then (case val of None \<Rightarrow> var ! i | Some v \<Rightarrow> map Some v) else var ! k)"
  using assms by (cases val) (auto simp: nth_list_update)

lemma stored_length:
  "length (case val of None \<Rightarrow> var | Some v \<Rightarrow> var[i := map Some v]) = length var"
  by (cases val) simp_all

lemma stored_widths:
  assumes "\<forall>x\<in>set var. length x = w" "\<forall>v. val = Some v \<longrightarrow> length v = w"
  shows "\<forall>x\<in>set (case val of None \<Rightarrow> var | Some v \<Rightarrow> var[i := map Some v]). length x = w"
proof (cases val)
  case None
  with assms show ?thesis by simp
next
  case (Some v)
  with assms(2) have "length (map Some v) = w" by simp
  from set_update_lengths [OF assms(1) this] Some show ?thesis by simp
qed

lemma export_row_result:
  assumes ws: "well_shaped c" and id: "row_id r < dim_cells c"
    and fits: "row_fits (dim_bins c) r" and sl: "slice_ref r = Slice rs cs"
  shows "export_row c r = Inr (c\<lparr>
      var_bin_edges := (case bin_edges r of None \<Rightarrow> var_bin_edges c
         | Some v \<Rightarrow> (var_bin_edges c)[row_id r := map Some v]),
      var_cum_volume_table := (case cum_volume_table r of None \<Rightarrow> var_cum_volume_table c
         | Some v \<Rightarrow> (var_cum_volume_table c)[row_id r := map Some v]),
      var_volume_table := (case volume_table r of None \<Rightarrow> var_volume_table c
         | Some v \<Rightarrow> (var_volume_table c)[row_id r := map Some v]),
      var_extent := (var_extent c)[row_id r := map Some (extent r)],
      var_n_per_bin := (case map_option (map int) (n_per_bin r) of None \<Rightarrow> var_n_per_bin c
         | Some v \<Rightarrow> (var_n_per_bin c)[row_id r := map Some v]),
      var_slice := (var_slice c)[row_id r := map Some [fst rs, snd rs, fst cs, snd cs]]\<rparr>)"
proof -
  let ?i = "row_id r"
  from ws id have l: "?i < length (var_bin_edges c)" "?i < length (var_cum_volume_table c)"
    "?i < length (var_volume_table c)" "?i < length (var_extent c)"
    "?i < length (var_n_per_bin c)" "?i < length (var_slice c)"
    by (simp_all add: well_shaped_def)
  from ws nth_mem [OF l(1)] have w1: "length (var_bin_edges c ! ?i) = dim_bins c + 1"
    by (simp add: well_shaped_def)
  from ws nth_mem [OF l(2)] have w2: "length (var_cum_volume_table c ! ?i) = dim_bins c"
    by (simp add: well_shaped_def)
  from ws nth_mem [OF l(3)] have w3: "length (var_volume_table c ! ?i) = dim_bins c"
    by (simp add: well_shaped_def)
  from ws nth_mem [OF l(4)] have w4: "length (var_extent c ! ?i) = 4"
    by (simp add: well_shaped_def)
  from ws nth_mem [OF l(5)] have w5: "length (var_n_per_bin c ! ?i) = dim_bins c"
    by (simp add: well_shaped_def)
  from ws nth_mem [OF l(6)] have w6: "length (var_slice c ! ?i) = 4"
    by (simp add: well_shaped_def)
  from fits w1 have p1: "put_opt (var_bin_edges c) ?i (bin_edges r)
      = Inr (case bin_edges r of None \<Rightarrow> var_bin_edges c
         | Some v \<Rightarrow> (var_bin_edges c)[?i := map Some v])"
    by (intro put_opt_ok l) (simp add: row_fits_def)
  from fits w2 have p2: "put_opt (var_cum_volume_table c) ?i (cum_volume_table r)
      = Inr (case cum_volume_table r of None \<Rightarrow> var_cum_volume_table c
         | Some v \<Rightarrow> (var_cum_volume_table c)[?i := map Some v])"
    by (intro put_opt_ok l) (simp add: row_fits_def)
  from fits w3 have p3: "put_opt (var_volume_table c) ?i (volume_table r)
      = Inr (case volume_table r of None \<Rightarrow> var_volume_table c
         | Some v \<Rightarrow> (var_volume_table c)[?i := map Some v])"
    by (intro put_opt_ok l) (simp add: row_fits_def)
  from fits w4 have p4: "put_row (var_extent c) ?i (extent r)
      = Inr ((var_extent c)[?i := map Some (extent r)])"
    by (intro put_row_ok l) (simp add: row_fits_def)
  from fits w5 have p5: "put_opt (var_n_per_bin c) ?i (map_option (map int) (n_per_bin r))
      = Inr (case map_option (map int) (n_per_bin r) of None \<Rightarrow> var_n_per_bin c
         | Some v \<Rightarrow> (var_n_per_bin c)[?i := map Some v])"
    by (intro put_opt_ok l) (auto simp: row_fits_def)
  from w6 have p6: "put_row (var_slice c) ?i [fst rs, snd rs, fst cs, snd cs]
      = Inr ((var_slice c)[?i := map Some [fst rs, snd rs, fst cs, snd cs]])"
    by (intro put_row_ok l) simp
  show ?thesis
    unfolding export_row_def p1 p2 p3 p4 p5 sl by (simp add: bind_def p6)
qed

lemma export_row_effect:
  assumes ws: "well_shaped c" and id: "row_id r < dim_cells c"
    and fits: "row_fits (dim_bins c) r"
  shows "\<exists>c'. export_row c r = Inr c' \<and> well_shaped c' \<and>
           dim_cells c' = dim_cells c \<and> dim_bins c' = dim_bins c \<and>
           (\<forall>k. k \<noteq> row_id r \<longrightarrow>
              row_view c' k = row_view c k \<and> (unwritten c k \<longrightarrow> unwritten c' k)) \<and>
           (unwritten c (row_id r) \<longrightarrow> row_view c' (row_id r) = round_trip_row (dim_bins c) r)"
proof -
  let ?i = "row_id r"
  from fits obtain rs cs where sl: "slice_ref r = Slice rs cs" by (auto simp: row_fits_def)
  define c' where "c' = c\<lparr>
      var_bin_edges := (case bin_edges r of None \<Rightarrow> var_bin_edges c
         | Some v \<Rightarrow> (var_bin_edges c)[row_id r := map Some v]),
      var_cum_volume_table := (case cum_volume_table r of None \<Rightarrow> var_cum_volume_table c
         | Some v \<Rightarrow> (var_cum_volume_table c)[row_id r := map Some v]),
      var_volume_table := (case volume_table r of None \<Rightarrow> var_volume_table c
         | Some v \<Rightarrow> (var_volume_table c)[row_id r := map Some v]),
      var_extent := (var_extent c)[row_id r := map Some (extent r)],
      var_n_per_bin := (case map_option (map int) (n_per_bin r) of None \<Rightarrow> var_n_per_bin c
         | Some v \<Rightarrow> (var_n_per_bin c)[row_id r := map Some v]),
      var_slice := (var_slice c)[row_id r := map Some [fst rs, snd rs, fst cs, snd cs]]\<rparr>"
  from export_row_result [OF ws id fits sl] have ex: "export_row c r = Inr c'"
    by (simp add: c'_def)
  from ws id have l: "?i < length (var_bin_edges c)" "?i < length (var_cum_volume_table c)"
    "?i < length (var_volume_table c)" "?i < length (var_extent c)"
    "?i < length (var_n_per_bin c)" "?i < length (var_slice c)"
    by (simp_all add: well_shaped_def)
  have dims: "dim_cells c' = dim_cells c" "dim_bins c' = dim_bins c" by (simp_all add: c'_def)
  have shaped: "well_shaped c'"
    unfolding well_shaped_def
  proof (intro conjI)
    show "length (var_bin_edges c') = dim_cells c'"
      "length (var_cum_volume_table c') = dim_cells c'"
      "length (var_volume_table c') = dim_cells c'"
      "length (var_extent c') = dim_cells c'"
      "length (var_n_per_bin c') = dim_cells c'"
      "length (var_slice c') = dim_cells c'"
      using ws stored_length [where val = "map_option (map int) (n_per_bin r)"
          and var = "var_n_per_bin c" and i = "row_id r"]
      by (simp_all add: c'_def stored_length well_shaped_def)
    have a1: "\<forall>x\<in>set (var_bin_edges c). length x = dim_bins c + 1"
      and a2: "\<forall>x\<in>set (var_cum_volume_table c). length x = dim_bins c"
      and a3: "\<forall>x\<in>set (var_volume_table c). length x = dim_bins c"
      and a5: "\<forall>x\<in>set (var_n_per_bin c). length x = dim_bins c"
      using ws by (simp_all add: well_shaped_def)
    have f1: "\<forall>v. bin_edges r = Some v \<longrightarrow> length v = dim_bins c + 1"
      and f2: "\<forall>v. cum_volume_table r = Some v \<longrightarrow> length v = dim_bins c"
      and f3: "\<forall>v. volume_table r = Some v \<longrightarrow> length v = dim_bins c"
      and f5: "\<forall>v. map_option (map int) (n_per_bin r) = Some v \<longrightarrow> length v = dim_bins c"
      using fits by (auto simp: row_fits_def)
    from stored_widths [OF a1 f1, of ?i]
    show "\<forall>x\<in>set (var_bin_edges c'). length x = dim_bins c' + 1" by (simp add: c'_def)
    from stored_widths [OF a2 f2, of ?i]
    show "\<forall>x\<in>set (var_cum_volume_table c'). length x = dim_bins c'" by (simp add: c'_def)
    from stored_widths [OF a3 f3, of ?i]
    show "\<forall>x\<in>set (var_volume_table c'). length x = dim_bins c'" by (simp add: c'_def)
    from stored_widths [OF a5 f5, of ?i]
    show "\<forall>x\<in>set (var_n_per_bin c'). length x = dim_bins c'" by (simp add: c'_def)
    have a4: "\<forall>x\<in>set (var_extent c). length x = 4"
      and a6: "\<forall>x\<in>set (var_slice c). length x = 4"
      using ws by (simp_all add: well_shaped_def)
    have f4: "length (map Some (extent r)) = 4" using fits by (simp add: row_fits_def)
    have f6: "length (map Some [fst rs, snd rs, fst cs, snd cs]) = 4" by simp
    from set_update_lengths [OF a4 f4, of ?i]
    show "\<forall>x\<in>set (var_extent c'). length x = 4" by (simp add: c'_def)
    from set_update_lengths [OF a6 f6, of ?i]
    show "\<forall>x\<in>set (var_slice c'). length x = 4" by (simp add: c'_def)
  qed
  have other: "row_view c' k = row_view c k \<and> (unwritten c k \<longrightarrow> unwritten c' k)"
    if "k \<noteq> ?i" for k
    using that l
    by (simp add: c'_def row_view_def unwritten_def stored_nth split: option.splits)
  have own: "row_view c' ?i = round_trip_row (dim_bins c) r" if "unwritten c ?i"
    using that l sl
    by (simp add: c'_def row_view_def unwritten_def stored_nth round_trip_row_def as_read_def
        window_ints_def split: option.splits)
  from ex shaped dims other own show ?thesis by blast
qed

lemma export_tables_effect:
  assumes "well_shaped c"
    and "\<forall>r\<in>set rows. row_id r < dim_cells c \<and> row_fits (dim_bins c) r \<and>
           unwritten c (row_id r)"
    and "distinct (map row_id rows)"
  shows "\<exists>c'. export_tables c rows = Inr c' \<and> well_shaped c' \<and>
           dim_cells c' = dim_cells c \<and> dim_bins c' = dim_bins c \<and>
           (\<forall>r\<in>set rows. row_view c' (row_id r) = round_trip_row (dim_bins c) r) \<and>
           (\<forall>k. k \<notin> row_id ` set rows \<longrightarrow> row_view c' k = row_view c k)"
  using assms
proof (induction rows arbitrary: c)
  case Nil
  then show ?case by simp
next
  case (Cons r rows)
  from Cons.prems(2) have r: "row_id r < dim_cells c" "row_fits (dim_bins c) r"
    "unwritten c (row_id r)" by simp_all
  from export_row_effect [OF Cons.prems(1) r(1,2)] r(3) obtain c1
    where c1: "export_row c r = Inr c1" "well_shaped c1"
      "dim_cells c1 = dim_cells c" "dim_bins c1 = dim_bins c"
      and oth: "\<forall>k. k \<noteq> row_id r \<longrightarrow>
              row_view c1 k = row_view c k \<and> (unwritten c k \<longrightarrow> unwritten c1 k)"
      and own: "row_view c1 (row_id r) = round_trip_row (dim_bins c) r"
    by blast
  from Cons.prems(3) have nin: "row_id r \<notin> row_id ` set rows" and dist: "distinct (map row_id rows)"
    by simp_all
  have pre: "\<forall>r'\<in>set rows. row_id r' < dim_cells c1 \<and> row_fits (dim_bins c1) r' \<and>
           unwritten c1 (row_id r')"
  proof
    fix r' assume r': "r' \<in> set rows"
    with nin have "row_id r' \<noteq> row_id r" by (metis image_eqI)
    with oth Cons.prems(2) r' c1(3,4) show "row_id r' < dim_cells c1 \<and>
        row_fits (dim_bins c1) r' \<and> unwritten c1 (row_id r')" by simp
  qed
  from Cons.IH [OF c1(2) pre dist] obtain c'
    where c': "export_tables c1 rows = Inr c'" "well_shaped c'"
      "dim_cells c' = dim_cells c1" "dim_bins c' = dim_bins c1"
      and rows: "\<forall>r\<in>set rows. row_view c' (row_id r) = round_trip_row (dim_bins c1) r"
      and rest: "\<forall>k. k \<notin> row_id ` set rows \<longrightarrow> row_view c' k = row_view c1 k"
    by blast
  from c1(1) c'(1) have 1: "export_tables c (r # rows) = Inr c'" by (simp add: bind_def)
  from rest nin own have 2: "row_view c' (row_id r) = round_trip_row (dim_bins c) r" by simp
  from rows c1(4) have 3: "\<forall>r\<in>set rows. row_view c' (row_id r) = round_trip_row (dim_bins c) r"
    by simp
  have 4: "\<forall>k. k \<notin> row_id ` set (r # rows) \<longrightarrow> row_view c' k = row_view c k"
    using rest oth by simp
  from 1 c'(2,3,4) c1(3,4) 2 3 4 show ?case by simp
qed

lemma import_row_view:
  assumes "well_shaped c" "k < dim_cells c"
  shows "import_row c k = Inr (row_view c k)"
proof -
  from assms have "k < length (var_slice c)" by (simp add: well_shaped_def)
  from nth_mem [OF this] assms(1) have "length (var_slice c ! k) = 4"
    by (simp add: well_shaped_def)
  then show ?thesis
    by (simp add: import_row_def row_view_def py_index_def bind_def)
qed

lemma map_err_Inr: "\<forall>x\<in>set xs. f x = Inr (g x) \<Longrightarrow> map_err f xs = Inr (map g xs)"
  by (induction xs) (simp_all add: bind_def)

lemma build_row_extent: "build_row d i f = Inr r \<Longrightarrow> length (extent r) = 4"
  by (auto simp: build_row_def bind_def Let_def split: sum.splits)

lemma build_row_fits:
  assumes "build_row d i f = Inr r"
  shows "row_fits 20 r"
proof (cases "mask_any (row_window r d)")
  case True
  with build_row_fields [OF assms] build_row_extent [OF assms] show ?thesis
    by (simp add: row_fits_def)
next
  case False
  with build_row_fields [OF assms] obtain npb be vt cvt
    where t: "table_of d (row_window r d) = (npb, be, vt, cvt)"
      and f: "n_per_bin r = Some npb" "bin_edges r = Some be" "volume_table r = Some vt"
        "cum_volume_table r = Some cvt"
    by auto
  from table_of_parts(4-7) [OF t] f build_row_fields [OF assms] build_row_extent [OF assms]
  show ?thesis by (simp add: row_fits_def)
qed

lemma map_nth_fun: "map (\<lambda>k. f (xs ! k)) [0..<length xs] = map f xs"
  by (rule nth_equalityI) simp_all

text \<open>
  Claim C4. Writing the tables of build_tables into a container made by create_export
  for as many cells and 20 bins succeeds, and reading the container back gives, cell by
  cell, the row as written: each array of a valid row element for element, the extent,
  and the window as the four integers row start, row stop, column start, column stop.
  The arrays of a cell with an empty table come back fully masked, none of their
  elements being a number: nothing was written for them.
\<close>

theorem export_import_round_trip:
  assumes "build_tables g d = Inr tables"
  shows "\<exists>c. export_tables (create_export (length tables) 20) tables = Inr c \<and>
             import_tables c = Inr (map (round_trip_row 20) tables)"
proof -
  let ?n = "length tables"
  let ?c0 = "create_export ?n 20"
  from assms have "build_rows d 0 (face_coordinates g) = Inr tables"
    by (simp add: build_tables_def)
  from build_rows_nth [OF this]
  have rows: "\<forall>k<?n. build_row d k (face_coordinates g ! k) = Inr (tables ! k)" by simp
  have ids: "row_id (tables ! k) = k" if "k < ?n" for k
    using rows that build_row_fields by blast
  have fits: "row_fits 20 (tables ! k)" if "k < ?n" for k
    using rows that build_row_fits by blast
  have "map row_id tables = [0..<?n]"
    by (rule nth_equalityI) (simp_all add: ids)
  then have dist: "distinct (map row_id tables)" by simp
  have pre: "\<forall>r\<in>set tables. row_id r < dim_cells ?c0 \<and> row_fits (dim_bins ?c0) r \<and>
           unwritten ?c0 (row_id r)"
  proof
    fix r assume "r \<in> set tables"
    then obtain k where k: "k < ?n" "tables ! k = r" by (auto simp: in_set_conv_nth)
    with ids [of k] fits [of k] create_export_shaped(4) [of k ?n 20]
    show "row_id r < dim_cells ?c0 \<and> row_fits (dim_bins ?c0) r \<and> unwritten ?c0 (row_id r)"
      by (simp add: create_export_shaped)
  qed
  from export_tables_effect [OF create_export_shaped(1) pre dist] obtain c
    where c: "export_tables ?c0 tables = Inr c" "well_shaped c" "dim_cells c = ?n"
      and v: "\<forall>r\<in>set tables. row_view c (row_id r) = round_trip_row 20 r"
    by (auto simp: create_export_shaped)
  have view: "row_view c k = round_trip_row 20 (tables ! k)" if "k < ?n" for k
    using v ids [OF that] nth_mem [OF that] by metis
  from c(2,3) have lens: "length (var_bin_edges c) = ?n" "length (var_cum_volume_table c) = ?n"
    "length (var_volume_table c) = ?n" "length (var_extent c) = ?n"
    "length (var_n_per_bin c) = ?n" "length (var_slice c) = ?n"
    by (simp_all add: well_shaped_def)
  have "\<forall>k\<in>set [0..<?n]. import_row c k = Inr (round_trip_row 20 (tables ! k))"
    using import_row_view [OF c(2)] c(3) view by simp
  from map_err_Inr [OF this]
  have "import_tables c = Inr (map (\<lambda>k. round_trip_row 20 (tables ! k)) [0..<?n])"
    by (simp add: import_tables_def lens)
  with c(1) show ?thesis by (simp add: map_nth_fun)
qed

lemma round_trip_row_valid:
  assumes "bin_edges r = Some be" "cum_volume_table r = Some cvt" "volume_table r = Some vt"
    "n_per_bin r = Some npb"
  shows "i_bin_edges (round_trip_row n r) = map Some be"
    and "i_cum_volume_table (round_trip_row n r) = map Some cvt"
    and "i_volume_table (round_trip_row n r) = map Some vt"
    and "i_n_per_bin (round_trip_row n r) = map (Some \<circ> int) npb"
    and "i_extent (round_trip_row n r) = map Some (extent r)"
  using assms by (simp_all add: round_trip_row_def as_read_def)

lemma round_trip_row_empty:
  assumes "bin_edges r = None" "cum_volume_table r = None" "volume_table r = None"
    "n_per_bin r = None"
  shows "i_bin_edges (round_trip_row n r) = replicate (n + 1) None"
    and "i_cum_volume_table (round_trip_row n r) = replicate n None"
    and "i_volume_table (round_trip_row n r) = replicate n None"
    and "i_n_per_bin (round_trip_row n r) = replicate n None"
  using assms by (simp_all add: round_trip_row_def as_read_def)

theorem export_import_round_trip_witness:
  "build_tables overlap_grid overlap_dem = Inr (projr (build_tables overlap_grid overlap_dem)) \<and>
   import_tables (projr (export_tables (create_export 2 20)
       (projr (build_tables overlap_grid overlap_dem))))
     = Inr (map (round_trip_row 20) (projr (build_tables overlap_grid overlap_dem))) \<and>
   i_bin_edges (round_trip_row 20 (projr (build_tables overlap_grid overlap_dem) ! 0))
     = replicate 21 None \<and>
   i_cum_volume_table (round_trip_row 20 (projr (build_tables overlap_grid overlap_dem) ! 1))
     = map Some [1 / 20, 1 / 10, 3 / 20, 1 / 5, 1 / 4, 3 / 10, 7 / 20,
             2 / 5, 9 / 20, 1 / 2, 11 / 20, 3 / 5, 13 / 20, 7 / 10, 3 / 4, 4 / 5, 17 / 20,
             9 / 10, 19 / 20, 21 / 20] \<and>
   slice_2 (round_trip_row 20 (projr (build_tables overlap_grid overlap_dem) ! 1)) = Some 1 \<and>
   slice_3 (round_trip_row 20 (projr (build_tables overlap_grid overlap_dem) ! 1)) = Some 3"
proof -
  let ?tables = "projr (build_tables overlap_grid overlap_dem)"
  have t: "build_tables overlap_grid overlap_dem = Inr ?tables" by (simp add: overlap_tables)
  have n: "length ?tables = 2" by (simp add: overlap_tables)
  from export_import_round_trip [OF t] obtain c
    where c: "export_tables (create_export (length ?tables) 20) ?tables = Inr c"
      and i: "import_tables c = Inr (map (round_trip_row 20) ?tables)" by blast
  from c have "projr (export_tables (create_export 2 20) ?tables) = c" by (simp only: n) simp
  with i have "import_tables (projr (export_tables (create_export 2 20) ?tables))
     = Inr (map (round_trip_row 20) ?tables)" by simp
  moreover have "i_bin_edges (round_trip_row 20 (?tables ! 0)) = replicate 21 None"
    "i_cum_volume_table (round_trip_row 20 (?tables ! 1))
     = map Some [1 / 20, 1 / 10, 3 / 20, 1 / 5, 1 / 4, 3 / 10, 7 / 20,
             2 / 5, 9 / 20, 1 / 2, 11 / 20, 3 / 5, 13 / 20, 7 / 10, 3 / 4, 4 / 5, 17 / 20,
             9 / 10, 19 / 20, 21 / 20]"
    "slice_2 (round_trip_row 20 (?tables ! 1)) = Some 1"
    "slice_3 (round_trip_row 20 (?tables ! 1)) = Some 3"
    by (simp_all add: overlap_tables round_trip_row_def as_read_def window_ints_def)
  ultimately show ?thesis using t by blast
qed

section \<open>The builder's tables under the solver\<close>

lemma count_bins:
  assumes "\<forall>x\<in>set xs. f x < n"
  shows "sum_list (map (\<lambda>k. length (filter (\<lambda>x. f x = k) xs)) [0..<n]) = length xs"
  using assms
proof (induction xs)
  case Nil
  then show ?case by simp
next
  case (Cons x xs)
  then have fx: "f x < n" and ih: "sum_list (map (\<lambda>k. length (filter (\<lambda>x. f x = k) xs)) [0..<n])
      = length xs" by simp_all
  have "sum_list (map (\<lambda>k. length (filter (\<lambda>y. f y = k) (x # xs))) [0..<n])
      = (\<Sum>k\<in>{0..<n}. length (filter (\<lambda>y. f y = k) (x # xs)))"
    by (simp only: interv_sum_list_conv_sum_set_nat set_upt)
  also have "\<dots>
      = (\<Sum>k\<in>{0..<n}. (if f x = k then 1 else 0) + length (filter (\<lambda>y. f y = k) xs))"
    by (rule sum.cong) auto
  also have "\<dots> = (\<Sum>k\<in>{0..<n}. if f x = k then 1 else 0)
      + (\<Sum>k\<in>{0..<n}. length (filter (\<lambda>y. f y = k) xs))"
    by (rule sum.distrib)
  also have "(\<Sum>k\<in>{0..<n}. if f x = k then 1 else 0) = (1 :: nat)"
    using fx by simp
  also have "(\<Sum>k\<in>{0..<n}. length (filter (\<lambda>y. f y = k) xs)) = length xs"
    using ih by (simp add: interv_sum_list_conv_sum_set_nat)
  finally show ?case by simp
qed

lemma bin_index_less:
  assumes "a < b" "x \<le> b" "0 < n"
  shows "bin_index a b n x < n"
proof (cases "x = b")
  case True
  with assms(3) show ?thesis by (simp add: bin_index_def)
next
  case False
  with assms(2) have "x < b" by simp
  with assms(1) have "(x - a) / (b - a) < 1" by simp
  with assms(3) have "(x - a) / (b - a) * real n < 1 * real n"
    by (intro mult_strict_right_mono) simp_all
  then have "(x - a) / (b - a) * real n < real n" by simp
  then have "\<lfloor>(x - a) / (b - a) * real n\<rfloor> < int n" by (simp add: floor_less_iff)
  with assms(3) False show ?thesis by (simp add: bin_index_def)
qed

lemma outer_edges_cover:
  assumes "outer_edges xs = (a, b)" "x \<in> set xs"
  shows "a < b \<and> x \<le> b"
proof -
  from assms(2) obtain y ys where c: "xs = y # ys" by (cases xs) auto
  from assms(2) have "Min (set xs) \<le> x" "x \<le> Max (set xs)" by simp_all
  with assms(1) c show ?thesis
    by (auto simp: outer_edges_def fold_min_Min fold_max_Max split: if_splits)
qed

lemma histogram_total:
  assumes "histogram xs 20 = (npb, be)"
  shows "sum_list npb = length xs"
proof -
  obtain a b where e: "outer_edges xs = (a, b)" by (cases "outer_edges xs")
  have "\<forall>x\<in>set xs. bin_index a b 20 x < 20"
    using outer_edges_cover [OF e] by (simp add: bin_index_less)
  from count_bins [OF this] assms e show ?thesis by (simp add: histogram_def)
qed

text \<open>
  In a table of build_tables every pixel of the window lies below the last bin edge, so
  the volume of the last bin is the area of the window times the width of the bin,
  when the pixel size the solver reads agrees with the terrain's transform. The flat
  formula then gives in the last bin what the interpolation would give.
\<close>

lemma built_table_last_bin:
  assumes "build_tables g d = Inr tables" "r \<in> set tables"
    "bin_edges r = Some be" "volume_table r = Some vt" "cum_volume_table r = Some cvt"
    "dxp d * dyp d = \<bar>affine_a d * affine_e d\<bar>"
    "n_pixels (row_window r d) = length (concat (row_window r d))"
  shows "last vt = face_area r d * (last be - be ! (length cvt - 1))"
proof -
  from valid_row_table [OF assms(1,2,5)] assms(3,4) obtain npb
    where t: "table_of d (row_window r d) = (npb, be, vt, cvt)" by auto
  note p = table_of_parts [OF t]
  from p(4) have "npb \<noteq> []" by auto
  then have "last (cumsum npb) = sum_list npb" by (rule cumsum_last)
  moreover from p(4) have "length (cumsum npb) = 20" by simp
  moreover from this have "cumsum npb \<noteq> []" by (metis list.size(3) zero_neq_numeral)
  ultimately have "cumsum npb ! 19 = sum_list npb" by (simp add: last_conv_nth)
  with histogram_total [OF p(1)] have c: "cumsum npb ! 19 = length (concat (row_window r d))"
    by simp
  from p(6) have "vt \<noteq> []" by auto
  with p(6) have "last vt = vt ! 19" by (simp add: last_conv_nth)
  also from vt_nth [OF t, of 19] c
  have "vt ! 19 = \<bar>affine_a d * affine_e d\<bar> * real (length (concat (row_window r d)))
      * (be ! 20 - be ! 19)" by simp
  finally have v: "last vt = \<bar>affine_a d * affine_e d\<bar>
      * real (length (concat (row_window r d))) * (be ! 20 - be ! 19)" .
  from p(5) have "be \<noteq> []" by auto
  with p(5) have "last be = be ! 20" by (simp add: last_conv_nth)
  with v p(7) assms(6,7) show ?thesis by (simp add: face_area_def)
qed

lemma last_bin_flat_is_interpolation:
  fixes area w :: real
  assumes "v_last = area * w" "area \<noteq> 0" "w \<noteq> 0" "c_last = c_prev + v_last"
  shows "e_hi + (v - c_last) / area = (e_hi - w) + (v - c_prev) / v_last * (e_hi - (e_hi - w))"
  using assms by (simp add: field_simps)

lemma built_table_ok:
  assumes "build_tables g d = Inr tables" "r \<in> set tables"
    "bin_edges r = Some be" "volume_table r = Some vt" "cum_volume_table r = Some cvt"
    "affine_a d * affine_e d \<noteq> 0"
    "Some p \<in> set (concat (row_window r d))" "Some q \<in> set (concat (row_window r d))" "p \<noteq> q"
  shows "table_ok be vt cvt"
proof -
  from valid_row_table [OF assms(1,2,5)] assms(3,4) obtain npb
    where t: "table_of d (row_window r d) = (npb, be, vt, cvt)" by auto
  note l = table_of_parts [OF t]
  obtain a b where e: "outer_edges (map the (concat (row_window r d))) = (a, b)"
    by (cases "outer_edges (map the (concat (row_window r d)))")
  have "sorted be"
    unfolding sorted_iff_nth_Suc
  proof (intro allI impI)
    fix k assume "Suc k < length be"
    with l(5) have k: "k < 20" by simp
    from table_widths [OF t e k] outer_edges_le [OF e] show "be ! k \<le> be ! Suc k" by simp
  qed
  moreover have "list_all (\<lambda>x. 0 < x) vt"
    using table_volumes_pos [OF t _ assms(6) in_set_map_the [OF assms(7)]
        in_set_map_the [OF assms(8)] assms(9)] l(6)
    by (simp add: list_all_length)
  moreover from l(7) have "cvt \<noteq> []" by auto
  ultimately show ?thesis using l(3,5,6,7) by (simp add: table_ok_def)
qed

text \<open>
  On a row read back by import_tables the solver slices the rows \<open>slice_0:slice_2\<close> and
  the columns \<open>slice_1:slice_3\<close> (lines 45 to 48), where export_tables stores row start,
  row stop, column start, column stop in this order.
\<close>

lemma imported_row_window:
  "slice_ref r = SliceInts r0 r1 c0 c1 \<Longrightarrow> row_window r d = window (band d) (r0, c0) (r1, c1)"
  by (simp add: row_window_def)

text \<open>
  The same on a table of build_tables: cell 1 of \<open>overlap_grid\<close> lies over the
  elevations 1 and 2, and its first bin holds the volume \<open>1 / 20\<close>. The observed volume
  \<open>1 / 100\<close> gives the level \<open>- 1 / 25\<close>, below the lowest pixel, where filling a
  fifth of the first bin gives \<open>1 + 1 / 100\<close>.
\<close>

lemma first_bin_of_built_table:
  "subgrid_compute (with_vol (projr (build_tables overlap_grid overlap_dem) ! 1) (1 / 100))
     overlap_dem ''waterlevel'' = Inr (Some (Level (- (1 / 25))))"
proof -
  have b: "bisect [1 / 20, 1 / 10, 3 / 20, 1 / 5, 1 / 4, 3 / 10, 7 / 20, 2 / 5, 9 / 20, 1 / 2,
           11 / 20, 3 / 5, 13 / 20, 7 / 10, 3 / 4, 4 / 5, 17 / 20, 9 / 10, 19 / 20, 21 / 20]
          (1 / 100) = 0"
    by (simp add: bisect_def bisect_loop.simps)
  show ?thesis
    by (simp add: overlap_tables with_vol_def bind_def
      subgrid_compute_def num_col_def row_window_def overlap_band_fields window_def
      py_slice_def clip_bound_def n_pixels_def target_level_def b overflow_def
      py_index_def fdiv_def Let_def)
qed

section \<open>The branches of the solver\<close>

text \<open>
  Claim C2, as the code has it. The flat branch is taken from the last bin on, not only
  beyond it: its test is \<open>fill_idx >= len(cum_volume_table) - 1\<close>. For an ascending
  table of at least two bins that is when the observed volume reaches the cumulative
  volume below the last bin, \<open>cum_volume_table[-2]\<close>; a table of one bin always takes
  it. On that branch the level is the highest bin edge plus the volume above the last
  cumulative volume, spread over the area of the window. For every smaller index the
  interpolation branch is taken: the level is the lower edge of bin \<open>k\<close> plus the
  fraction \<open>(observed_volume - cum_volume_table[k - 1]) / volume_table[k]\<close> of the bin's
  width, with \<open>cum_volume_table[k - 1]\<close> as the code reads it, which for \<open>k\<close> from 1 on
  is the cumulative volume below bin \<open>k\<close>.
\<close>

theorem flat_branch_from_last_bin:
  assumes "bin_edges r = Some be" "cum_volume_table r = Some cvt"
    "cols r ''vol1'' = Some (Num v)"
    "be \<noteq> []" "cvt \<noteq> []" "sorted cvt" "face_area r d \<noteq> 0"
  shows "(overflow (bisect cvt v) cvt \<longleftrightarrow> length cvt = 1 \<or> cvt ! (length cvt - 2) \<le> v) \<and>
         (overflow (bisect cvt v) cvt \<longrightarrow>
            subgrid_compute r d ''waterlevel''
              = Inr (Some (Level (last be + (v - last cvt) / face_area r d)))) \<and>
         (\<not> overflow (bisect cvt v) cvt \<and> volume_table r = Some vt \<and>
          length vt = length cvt \<and> length be = length cvt + 1 \<and> vt ! bisect cvt v \<noteq> 0 \<longrightarrow>
            (\<exists>c_prev. py_index cvt (int (bisect cvt v) - 1) = Inr c_prev \<and>
               (1 \<le> bisect cvt v \<longrightarrow> c_prev = cvt ! (bisect cvt v - 1)) \<and>
               subgrid_compute r d ''waterlevel''
                 = Inr (Some (Level (be ! bisect cvt v
                     + (v - c_prev) / vt ! bisect cvt v
                       * (be ! (bisect cvt v + 1) - be ! bisect cvt v))))))"
proof (intro conjI impI)
  show "overflow (bisect cvt v) cvt \<longleftrightarrow> length cvt = 1 \<or> cvt ! (length cvt - 2) \<le> v"
  proof (cases "length cvt = 1")
    case True
    then show ?thesis by (simp add: overflow_def)
  next
    case False
    moreover from assms(5) have "length cvt \<noteq> 0" by simp
    ultimately have "2 \<le> length cvt" by linarith
    from overflow_iff_sorted [OF assms(6) this] False show ?thesis by simp
  qed
next
  assume "overflow (bisect cvt v) cvt"
  from target_level_flat [OF assms(5,4,7) this]
  show "subgrid_compute r d ''waterlevel''
          = Inr (Some (Level (last be + (v - last cvt) / face_area r d)))"
    by (simp add: subgrid_compute_level [OF assms(1,2,3)] bind_def)
next
  let ?k = "bisect cvt v"
  assume a: "\<not> overflow ?k cvt \<and> volume_table r = Some vt \<and>
          length vt = length cvt \<and> length be = length cvt + 1 \<and> vt ! ?k \<noteq> 0"
  then have no: "\<not> overflow ?k cvt" and vt: "volume_table r = Some vt"
    and lv: "length vt = length cvt" and lb: "length be = length cvt + 1"
    and nz: "vt ! ?k \<noteq> 0" by simp_all
  let ?c = "if ?k = 0 then last cvt else cvt ! (?k - 1)"
  from py_index_prev [OF assms(5) bisect_le_length [of cvt v]]
  have 1: "py_index cvt (int ?k - 1) = Inr ?c" .
  have 2: "1 \<le> ?k \<longrightarrow> ?c = cvt ! (?k - 1)" by simp
  from target_level_interp [OF lv lb no nz, of "face_area r d"]
  have 3: "subgrid_compute r d ''waterlevel''
      = Inr (Some (Level (be ! ?k + (v - ?c) / vt ! ?k * (be ! (?k + 1) - be ! ?k))))"
    by (simp add: subgrid_compute_level [OF assms(1,2,3)] vt bind_def)
  from 1 2 3
  show "\<exists>c_prev. py_index cvt (int ?k - 1) = Inr c_prev \<and>
               (1 \<le> ?k \<longrightarrow> c_prev = cvt ! (?k - 1)) \<and>
               subgrid_compute r d ''waterlevel''
                 = Inr (Some (Level (be ! ?k + (v - c_prev) / vt ! ?k
                       * (be ! (?k + 1) - be ! ?k))))"
    by blast
qed

theorem flat_branch_from_last_bin_witness:
  "sorted [10, 25, 45, 70 :: real] \<and>
   face_area (with_vol scenario_row 100) (scenario_dem FloatDType) \<noteq> 0 \<and>
   overflow (bisect [10, 25, 45, 70] 100) [10, 25, 45, 70] \<and>
   subgrid_compute (with_vol scenario_row 100) (scenario_dem FloatDType) ''waterlevel''
     = Inr (Some (Level 10)) \<and>
   \<not> overflow (bisect [10, 25, 45, 70] 30) [10, 25, 45, 70] \<and>
   [10, 15, 20, 25 :: real] ! bisect [10, 25, 45, 70] 30 \<noteq> 0 \<and>
   py_index [10, 25, 45, 70 :: real] (int (bisect [10, 25, 45, 70] 30) - 1) = Inr 25 \<and>
   subgrid_compute (with_vol scenario_row 30) (scenario_dem FloatDType) ''waterlevel''
     = Inr (Some (Level (9 / 4)))"
proof -
  have s: "sorted [10, 25, 45, 70 :: real]" by simp
  have a: "face_area (with_vol scenario_row v) (scenario_dem FloatDType) \<noteq> 0" for v
    by (simp add: scenario_face_area)
  have o: "overflow (bisect [10, 25, 45, 70] 100) [10, 25, 45, 70]"
    by (simp add: scenario_bisect overflow_def)
  have n: "\<not> overflow (bisect [10, 25, 45, 70] 30) [10, 25, 45, 70]"
    by (simp add: scenario_bisect overflow_def)
  have z: "[10, 15, 20, 25 :: real] ! bisect [10, 25, 45, 70] 30 \<noteq> 0"
    by (simp add: scenario_bisect)
  have p: "py_index [10, 25, 45, 70 :: real] (int (bisect [10, 25, 45, 70] 30) - 1) = Inr 25"
    by (simp add: scenario_bisect py_index_def)
  from flat_branch_from_last_bin [OF scenario_fields(1,3,4) _ _ s a, of 100] o
  have flat: "subgrid_compute (with_vol scenario_row 100) (scenario_dem FloatDType) ''waterlevel''
     = Inr (Some (Level 10))" by (simp add: scenario_face_area)
  from flat_branch_from_last_bin [OF scenario_fields(1,3,4) _ _ s a,
      of 30 "[10, 15, 20, 25]"] n z scenario_fields(2) [of 30]
  obtain c where c: "py_index [10, 25, 45, 70 :: real] (int (bisect [10, 25, 45, 70] 30) - 1)
        = Inr c"
    and l: "subgrid_compute (with_vol scenario_row 30) (scenario_dem FloatDType) ''waterlevel''
        = Inr (Some (Level ([0, 1, 2, 3, 4] ! bisect [10, 25, 45, 70] 30
             + (30 - c) / [10, 15, 20, 25] ! bisect [10, 25, 45, 70] 30
               * ([0, 1, 2, 3, 4] ! (bisect [10, 25, 45, 70] 30 + 1)
                  - [0, 1, 2, 3, 4] ! bisect [10, 25, 45, 70] 30))))"
    by auto
  from c p have "c = 25" by simp
  with l have interp: "subgrid_compute (with_vol scenario_row 30) (scenario_dem FloatDType)
      ''waterlevel'' = Inr (Some (Level (9 / 4)))"
    by (simp add: scenario_bisect)
  from s a [of 100] o flat n z p interp show ?thesis by blast
qed

section \<open>The calls over the store\<close>

lemma unchanged_but_refl: "unchanged_but S h h"
  by (simp add: unchanged_but_def)

lemma unchanged_but_trans:
  "unchanged_but S h h1 \<Longrightarrow> unchanged_but S h1 h2 \<Longrightarrow> unchanged_but S h h2"
  by (auto simp: unchanged_but_def)

lemma unchanged_but_mono: "unchanged_but S h h' \<Longrightarrow> S \<subseteq> T \<Longrightarrow> unchanged_but T h h'"
  by (auto simp: unchanged_but_def)

lemma writes_only_mono: "writes_only S m \<Longrightarrow> S \<subseteq> T \<Longrightarrow> writes_only T m"
  unfolding writes_only_def using unchanged_but_mono by blast

lemma writes_only_ret [simp]: "writes_only S (ret_st x)"
  by (simp add: writes_only_def ret_st_def unchanged_but_refl)

lemma writes_only_raise [simp]: "writes_only S (raise_st e)"
  by (simp add: writes_only_def raise_st_def unchanged_but_refl)

lemma writes_only_lift [simp]: "writes_only S (lift_st r)"
  by (simp add: writes_only_def lift_st_def unchanged_but_refl)

lemma writes_only_load [simp]: "writes_only S (load a)"
  by (simp add: writes_only_def load_def unchanged_but_refl)

lemma writes_only_store: "a \<in> S \<Longrightarrow> writes_only S (store_at a x)"
  by (auto simp: writes_only_def store_at_def unchanged_but_def nth_list_update)

lemma writes_only_alloc [simp]: "writes_only S (alloc x)"
  by (simp add: writes_only_def alloc_def unchanged_but_def nth_append)

lemma writes_only_bind:
  assumes "writes_only S m" "\<And>x. writes_only S (f x)"
  shows "writes_only S (bind_st m f)"
  unfolding writes_only_def
proof
  fix h
  obtain h1 r where m: "m h = (h1, r)" by (cases "m h")
  with assms(1) have 1: "unchanged_but S h h1" by (auto simp: writes_only_def dest: spec [of _ h])
  show "unchanged_but S h (fst (bind_st m f h))"
  proof (cases r)
    case (Inl e)
    with m 1 show ?thesis by (simp add: bind_st_def)
  next
    case (Inr x)
    from assms(2) [of x] have "unchanged_but S h1 (fst (f x h1))" by (simp add: writes_only_def)
    with 1 have "unchanged_but S h (fst (f x h1))" by (rule unchanged_but_trans)
    with m Inr show ?thesis by (simp add: bind_st_def)
  qed
qed

lemma writes_only_alloc_bind:
  assumes "\<And>b. writes_only (insert b S) (f b)"
  shows "writes_only S (bind_st (alloc x) f)"
  unfolding writes_only_def
proof
  fix h
  from assms [of "length h"]
  have "unchanged_but (insert (length h) S) (h @ [x]) (fst (f (length h) (h @ [x])))"
    unfolding writes_only_def by blast
  then have "unchanged_but S h (fst (f (length h) (h @ [x])))"
    by (auto simp: unchanged_but_def nth_append)
  then show "unchanged_but S h (fst (bind_st (alloc x) f h))"
    by (simp add: bind_st_def alloc_def)
qed

lemma writes_only_the [simp]:
  "writes_only S (the_grid a)" "writes_only S (the_dem a)" "writes_only S (the_tables a)"
  "writes_only S (the_data a)" "writes_only S (the_band a)"
  by (auto simp: the_grid_def the_dem_def the_tables_def the_data_def the_band_def
      intro!: writes_only_bind split: obj.splits)

lemma writes_only_assign_col: "t_a \<in> S \<Longrightarrow> writes_only S (assign_col t_a name vals)"
  by (auto simp: assign_col_def intro!: writes_only_bind writes_only_store)

lemma writes_only_build_rows: "writes_only S (build_rows_st d_a i fs)"
  by (induction fs arbitrary: i) (auto intro!: writes_only_bind)

lemma writes_only_band_loop: "b_a \<in> S \<Longrightarrow> writes_only S (band_loop_st d_a t_a b_a m faces ex)"
proof (induction faces arbitrary: ex)
  case Nil
  then show ?case by simp
next
  case (Cons i faces)
  show ?case
    by (auto simp: Cons intro!: writes_only_bind writes_only_store
        split: option.splits window_ref.splits)
qed

lemma writes_only_solve_loop: "writes_only S (solve_loop_st d_a t_a m faces)"
  by (induction faces) (auto intro!: writes_only_bind)

lemma writes_only_build_tables: "writes_only {} (build_tables_st g_a d_a)"
  by (auto simp: build_tables_st_def intro!: writes_only_bind writes_only_build_rows)

lemma writes_only_compute_band: "writes_only {t_a} (compute_band_st g_a d_a t_a data_a m)"
  unfolding compute_band_st_def
  by (intro writes_only_bind writes_only_alloc_bind writes_only_the writes_only_ret
      writes_only_assign_col writes_only_band_loop) simp_all

lemma writes_only_compute_features: "writes_only {t_a} (compute_features_st d_a t_a data_a m)"
  unfolding compute_features_st_def
  by (intro writes_only_bind writes_only_the writes_only_alloc writes_only_lift
      writes_only_assign_col writes_only_solve_loop) simp_all

lemma bind_ret: "bind_st (ret_st x) f h = f x h"
  by (simp add: bind_st_def ret_st_def)

lemma bind_raise: "bind_st (raise_st e) f h = (h, Inl e)"
  by (simp add: bind_st_def raise_st_def)

lemma bind_lift:
  "bind_st (lift_st r) f h = (case r of Inl e \<Rightarrow> (h, Inl e) | Inr x \<Rightarrow> f x h)"
  by (simp add: bind_st_def lift_st_def split: sum.splits)

lemma bind_alloc: "bind_st (alloc x) f h = f (length h) (h @ [x])"
  by (simp add: bind_st_def alloc_def)

lemma bind_store:
  "a < length h \<Longrightarrow> bind_st (store_at a x) f h = f () (h[a := x])"
  by (simp add: bind_st_def store_at_def)

lemma bind_the_grid:
  "a < length h \<Longrightarrow> h ! a = OGrid g \<Longrightarrow> bind_st (the_grid a) f h = f g h"
  by (simp add: the_grid_def bind_st_def load_def ret_st_def)

lemma bind_the_dem:
  "a < length h \<Longrightarrow> h ! a = ODem d \<Longrightarrow> bind_st (the_dem a) f h = f d h"
  by (simp add: the_dem_def bind_st_def load_def ret_st_def)

lemma bind_the_tables:
  "a < length h \<Longrightarrow> h ! a = OTables t \<Longrightarrow> bind_st (the_tables a) f h = f t h"
  by (simp add: the_tables_def bind_st_def load_def ret_st_def)

lemma bind_the_data:
  "a < length h \<Longrightarrow> h ! a = OData dt \<Longrightarrow> bind_st (the_data a) f h = f dt h"
  by (simp add: the_data_def bind_st_def load_def ret_st_def)

lemma bind_the_band:
  "a < length h \<Longrightarrow> h ! a = OBand b \<Longrightarrow> bind_st (the_band a) f h = f b h"
  by (simp add: the_band_def bind_st_def load_def ret_st_def)

lemma build_rows_st_exact:
  assumes "d_a < length h" "h ! d_a = ODem d"
  shows "build_rows_st d_a i fs h = (h, build_rows d i fs)"
proof (induction fs arbitrary: i)
  case Nil
  show ?case by (simp add: ret_st_def)
next
  case (Cons f fs)
  have "build_rows_st d_a i (f # fs) h =
      (case build_row d i f of Inl e \<Rightarrow> (h, Inl e)
       | Inr r \<Rightarrow> bind_st (build_rows_st d_a (Suc i) fs) (\<lambda>rs. ret_st (r # rs)) h)"
    by (simp add: bind_the_dem [OF assms] bind_lift)
  also have "\<dots> = (h, build_rows d i (f # fs))"
    by (simp add: Cons bind_st_def bind_def ret_st_def split: sum.splits)
  finally show ?case .
qed

lemma build_tables_st_exact:
  assumes "g_a < length h" "h ! g_a = OGrid g" "d_a < length h" "h ! d_a = ODem d"
  shows "build_tables_st g_a d_a h =
     (case build_tables g d of Inl e \<Rightarrow> (h, Inl e)
      | Inr rows \<Rightarrow>
          if rows = [] then (h, Inl KeyError) else (h @ [OTables rows], Inr (length h)))"
proof -
  have "build_tables_st g_a d_a h =
      bind_st (build_rows_st d_a 0 (face_coordinates g))
        (\<lambda>rows. if rows = [] then raise_st KeyError else alloc (OTables rows)) h"
    by (simp add: build_tables_st_def bind_the_grid [OF assms(1,2)])
  also have "\<dots> = (case build_tables g d of Inl e \<Rightarrow> (h, Inl e)
      | Inr rows \<Rightarrow>
          if rows = [] then (h, Inl KeyError) else (h @ [OTables rows], Inr (length h)))"
    by (simp add: bind_st_def build_rows_st_exact [OF assms(3,4)] build_tables_def alloc_def
        raise_st_def split: sum.splits)
  finally show ?thesis .
qed

lemma assign_col_exact:
  assumes "t_a < length h" "h ! t_a = OTables t"
  shows "assign_col t_a name vals h =
     (case set_col name vals t of Inl e \<Rightarrow> (h, Inl e)
      | Inr t1 \<Rightarrow> (h[t_a := OTables t1], Inr ()))"
  using assms(1)
  by (simp add: assign_col_def bind_the_tables [OF assms] bind_lift store_at_def
      split: sum.splits)

lemma bind_assign_col:
  assumes "t_a < length h" "h ! t_a = OTables t"
  shows "bind_st (assign_col t_a name vals) f h =
     (case set_col name vals t of Inl e \<Rightarrow> (h, Inl e)
      | Inr t1 \<Rightarrow> f () (h[t_a := OTables t1]))"
  by (simp add: bind_st_def assign_col_exact [OF assms] split: sum.splits)

lemma band_loop_keeps:
  assumes "a < length h" "a \<noteq> b_a"
  shows "fst (band_loop_st d_a t_a b_a m faces ex h) ! a = h ! a"
proof -
  have "writes_only {b_a} (band_loop_st d_a t_a b_a m faces ex)"
    by (rule writes_only_band_loop) simp
  then have "unchanged_but {b_a} h (fst (band_loop_st d_a t_a b_a m faces ex h))"
    by (simp add: writes_only_def)
  with assms show ?thesis unfolding unchanged_but_def by blast
qed

lemma compute_band_st_start:
  assumes "d_a < length h" "h ! d_a = ODem d" "t_a < length h" "h ! t_a = OTables t"
    "data_a < length h" "h ! data_a = OData dt"
  shows "compute_band_st g_a d_a t_a data_a m h =
     (case set_col ''vol1'' (map Num (vol1 dt)) t of
        Inl e \<Rightarrow> (h @ [OBand (masked_all (band d))], Inl e)
      | Inr t1 \<Rightarrow>
          bind_st (band_loop_st d_a t_a (length h) m (map row_id t) [])
            (\<lambda>excluded. ret_st (length h, excluded))
            ((h @ [OBand (masked_all (band d))])[t_a := OTables t1]))"
proof -
  let ?h1 = "h @ [OBand (masked_all (band d))]"
  from assms have ty1: "t_a < length ?h1" "?h1 ! t_a = OTables t" "data_a < length ?h1"
    "?h1 ! data_a = OData dt"
    by (simp_all add: nth_append)
  show ?thesis
    by (simp add: compute_band_st_def bind_the_tables [OF assms(3,4)]
        bind_the_dem [OF assms(1,2)] bind_alloc bind_the_data [OF ty1(3,4)]
        bind_assign_col [OF ty1(1,2)])
qed

lemma compute_band_st_tables:
  assumes "d_a < length h" "h ! d_a = ODem d" "t_a < length h" "h ! t_a = OTables t"
    "data_a < length h" "h ! data_a = OData dt"
  shows "fst (compute_band_st g_a d_a t_a data_a m h) ! t_a =
     OTables (case set_col ''vol1'' (map Num (vol1 dt)) t of Inl e \<Rightarrow> t | Inr t1 \<Rightarrow> t1)"
proof (cases "set_col ''vol1'' (map Num (vol1 dt)) t")
  case (Inl e)
  with assms(3,4) show ?thesis
    by (simp add: compute_band_st_start [OF assms] nth_append)
next
  case (Inr t1)
  let ?h2 = "(h @ [OBand (masked_all (band d))])[t_a := OTables t1]"
  from assms(3) have "t_a < length ?h2" "t_a \<noteq> length h" by simp_all
  from band_loop_keeps [OF this, of d_a t_a m "map row_id t" "[]"] assms(3)
  have "fst (band_loop_st d_a t_a (length h) m (map row_id t) [] ?h2) ! t_a = OTables t1"
    by simp
  moreover have "fst (compute_band_st g_a d_a t_a data_a m h)
        = fst (band_loop_st d_a t_a (length h) m (map row_id t) [] ?h2)"
    by (simp add: compute_band_st_start [OF assms] Inr bind_st_def ret_st_def
        split: prod.splits sum.splits)
  ultimately show ?thesis using Inr by simp
qed

lemma compute_band_st_result:
  assumes "d_a < length h" "h ! d_a = ODem d" "t_a < length h" "h ! t_a = OTables t"
    "data_a < length h" "h ! data_a = OData dt"
    and "snd (compute_band_st g_a d_a t_a data_a m h) = Inr (b_a, ex)"
  shows "b_a = length h"
  using assms(7)
  by (auto simp: compute_band_st_start [OF assms(1-6)] bind_st_def ret_st_def
      split: prod.splits sum.splits)

lemma solve_loop_st_exact:
  assumes "d_a < length h" "h ! d_a = ODem d" "t_a < length h" "h ! t_a = OTables t"
  shows "solve_loop_st d_a t_a m faces h =
     (h, map_err (\<lambda>i. bind (loc t i) (\<lambda>r. subgrid_compute r d m)) faces)"
proof (induction faces)
  case Nil
  show ?case by (simp add: ret_st_def)
next
  case (Cons i faces)
  have "solve_loop_st d_a t_a m (i # faces) h =
      (case loc t i of Inl e \<Rightarrow> (h, Inl e)
       | Inr r \<Rightarrow>
          (case subgrid_compute r d m of Inl e \<Rightarrow> (h, Inl e)
           | Inr res \<Rightarrow>
               bind_st (solve_loop_st d_a t_a m faces) (\<lambda>results. ret_st (res # results)) h))"
    by (simp add: bind_the_tables [OF assms(3,4)] bind_the_dem [OF assms(1,2)] bind_lift
        split: sum.splits)
  also have "\<dots> = (h, map_err (\<lambda>i. bind (loc t i) (\<lambda>r. subgrid_compute r d m)) (i # faces))"
    by (simp add: Cons bind_st_def bind_def ret_st_def split: sum.splits)
  finally show ?case .
qed

lemma loc_row:
  assumes "distinct (map row_id t)" "r \<in> set t"
  shows "loc t (row_id r) = Inr r"
  using assms
proof (induction t)
  case Nil
  then show ?case by simp
next
  case (Cons x t)
  show ?case
  proof (cases "r = x")
    case True
    then show ?thesis by (simp add: loc_def)
  next
    case False
    with Cons.prems have r: "r \<in> set t" and d: "distinct (map row_id t)"
      and "row_id x \<notin> row_id ` set t"
      by auto
    then have "row_id x \<noteq> row_id r" by auto
    with Cons.IH [OF d r] show ?thesis by (simp add: loc_def)
  qed
qed

lemma map_err_cong_set:
  "(\<And>x. x \<in> set xs \<Longrightarrow> f x = g x) \<Longrightarrow> map_err f xs = map_err g xs"
  by (induction xs) simp_all

lemma map_err_map: "map_err f (map g xs) = map_err (\<lambda>x. f (g x)) xs"
  by (induction xs) simp_all

lemma map_err_loc:
  assumes "distinct (map row_id t)"
  shows "map_err (\<lambda>i. bind (loc t i) f) (map row_id t) = map_err f t"
proof -
  have "map_err (\<lambda>i. bind (loc t i) f) (map row_id t)
      = map_err (\<lambda>r. bind (loc t (row_id r)) f) t"
    by (rule map_err_map)
  also have "\<dots> = map_err f t"
    by (rule map_err_cong_set) (simp add: loc_row [OF assms] bind_def)
  finally show ?thesis .
qed

lemma map_err_nth:
  "map_err f xs = Inr ys \<Longrightarrow>
     length ys = length xs \<and> (\<forall>k<length xs. f (xs ! k) = Inr (ys ! k))"
proof (induction xs arbitrary: ys)
  case Nil
  then show ?case by simp
next
  case (Cons x xs)
  from Cons.prems obtain y ys' where fx: "f x = Inr y" and m: "map_err f xs = Inr ys'"
    and ys: "ys = y # ys'"
    by (auto simp: bind_def split: sum.splits)
  from Cons.IH [OF m] fx ys show ?case
    by (auto simp: nth_Cons split: nat.splits)
qed

lemma map_err_Inl_ex:
  "map_err f xs = Inl e \<Longrightarrow> \<exists>k<length xs. f (xs ! k) = Inl e"
proof (induction xs)
  case Nil
  then show ?case by simp
next
  case (Cons x xs)
  show ?case
  proof (cases "f x")
    case (Inl e')
    with Cons.prems have "e' = e" by (simp add: bind_def)
    with Inl show ?thesis by auto
  next
    case (Inr y)
    with Cons.prems have "map_err f xs = Inl e"
      by (simp add: bind_def split: sum.splits)
    from Cons.IH [OF this] obtain k where "k < length xs" "f (xs ! k) = Inl e" by blast
    then have "Suc k < length (x # xs)" "f ((x # xs) ! Suc k) = Inl e" by simp_all
    then show ?thesis by blast
  qed
qed

lemma set_col_ok:
  assumes "length vals = length t"
  shows "\<exists>t'. set_col name vals t = Inr t' \<and> length t' = length t \<and>
          map row_id t' = map row_id t \<and>
          (\<forall>k<length t. t' ! k = (t ! k)\<lparr>cols := (cols (t ! k))(name \<mapsto> vals ! k)\<rparr>)"
proof -
  let ?t' = "map (\<lambda>(r, v). r\<lparr>cols := (cols r)(name \<mapsto> v)\<rparr>) (zip t vals)"
  from assms have sc: "set_col name vals t = Inr ?t'" by (simp add: set_col_def)
  from assms have "map row_id ?t' = map row_id t"
    by (intro nth_equalityI) simp_all
  with sc set_col_nth [OF sc] show ?thesis by blast
qed

lemma subgrid_compute_cols:
  assumes "c ''vol1'' = cols r ''vol1''"
  shows "subgrid_compute (r\<lparr>cols := c\<rparr>) d m = subgrid_compute r d m"
proof -
  have w: "row_window (r\<lparr>cols := c\<rparr>) d = row_window r d"
    by (simp add: row_window_def)
  from assms have n: "num_col (r\<lparr>cols := c\<rparr>) ''vol1'' = num_col r ''vol1''"
    by (simp add: num_col_def)
  have f: "cum_volume_table (r\<lparr>cols := c\<rparr>) = cum_volume_table r"
    "volume_table (r\<lparr>cols := c\<rparr>) = volume_table r"
    "bin_edges (r\<lparr>cols := c\<rparr>) = bin_edges r"
    by simp_all
  show ?thesis
    unfolding subgrid_compute_def w n f ..
qed

lemma bind_solve_loop:
  assumes "d_a < length h" "h ! d_a = ODem d" "t_a < length h" "h ! t_a = OTables t"
    "distinct (map row_id t)"
  shows "bind_st (solve_loop_st d_a t_a m (map row_id t)) f h =
     (case map_err (\<lambda>r. subgrid_compute r d m) t of
        Inl e \<Rightarrow> (h, Inl e) | Inr results \<Rightarrow> f results h)"
  by (simp add: bind_st_def solve_loop_st_exact [OF assms(1-4)] map_err_loc [OF assms(5)]
      split: sum.splits)

lemma set_col_ids: "set_col name vals t = Inr t' \<Longrightarrow> map row_id t' = map row_id t"
  by (auto simp: set_col_def intro!: nth_equalityI split: if_splits)

lemma set_col_length: "set_col name vals t = Inr t' \<Longrightarrow> length t' = length t"
  by (auto simp: set_col_def split: if_splits)

text \<open>
  The store a call of compute_features leaves, by the data frame and the result of the
  function on values.
\<close>

lemma compute_features_st_exact:
  assumes "d_a < length h" "h ! d_a = ODem d" "t_a < length h" "h ! t_a = OTables t"
    "data_a < length h" "h ! data_a = OData dt" "distinct (map row_id t)"
  shows "compute_features_st d_a t_a data_a m h =
     (case compute_features d t dt m of
        (t', Inl e) \<Rightarrow> (h[t_a := OTables t'], Inl e)
      | (t', Inr fs) \<Rightarrow> (h[t_a := OTables t'] @ [OFeatures fs], Inr (length h)))"
proof -
  have ty: "d_a < length (h[t_a := OTables x])" "h[t_a := OTables x] ! d_a = ODem d"
    "t_a < length (h[t_a := OTables x])" "h[t_a := OTables x] ! t_a = OTables x"
    "data_a < length (h[t_a := OTables x])" "h[t_a := OTables x] ! data_a = OData dt" for x
    using assms(1-6) by (auto simp: nth_list_update)
  have id: "h[t_a := OTables t] = h"
    using assms(3,4) by (metis list_update_id)
  have ids: "distinct (map row_id t3)"
    if "set_col ''vol1'' (map Num (vol1 dt)) t = Inr t1"
      "set_col ''s1'' (map Num (s1 dt)) t1 = Inr t2"
      "set_col ''waterdepth'' (map Num (waterdepth dt)) t2 = Inr t3" for t1 t2 t3
    using that assms(7) by (simp add: set_col_ids)
  have idt: "map row_id t3 = map row_id t"
    if "set_col ''vol1'' (map Num (vol1 dt)) t = Inr t1"
      "set_col ''s1'' (map Num (s1 dt)) t1 = Inr t2"
      "set_col ''waterdepth'' (map Num (waterdepth dt)) t2 = Inr t3" for t1 t2 t3
    using that by (simp add: set_col_ids)
  show ?thesis
  proof (cases "set_col ''vol1'' (map Num (vol1 dt)) t")
    case (Inl e)
    then show ?thesis
      by (simp add: compute_features_st_def compute_features_def
          bind_the_tables [OF assms(3,4)] bind_the_data [OF assms(5,6)]
          bind_assign_col [OF assms(3,4)] id)
  next
    case t1: (Inr t1)
    show ?thesis
    proof (cases "set_col ''s1'' (map Num (s1 dt)) t1")
      case (Inl e)
      with t1 show ?thesis
        by (simp add: compute_features_st_def compute_features_def
            bind_the_tables [OF assms(3,4)] bind_the_data [OF assms(5,6)]
            bind_assign_col [OF assms(3,4)] bind_the_data [OF ty(5,6)]
            bind_assign_col [OF ty(3,4)])
    next
      case t2: (Inr t2)
      show ?thesis
      proof (cases "set_col ''waterdepth'' (map Num (waterdepth dt)) t2")
        case (Inl e)
        with t1 t2 show ?thesis
          by (simp add: compute_features_st_def compute_features_def
              bind_the_tables [OF assms(3,4)] bind_the_data [OF assms(5,6)]
              bind_assign_col [OF assms(3,4)] bind_the_data [OF ty(5,6)]
              bind_assign_col [OF ty(3,4)])
      next
        case t3: (Inr t3)
        have "compute_features_st d_a t_a data_a m h =
            bind_st (solve_loop_st d_a t_a m (map row_id t3)) (\<lambda>results.
            bind_st (assign_col t_a (''subgrid_'' @ m) (map Res results)) (\<lambda>_.
            bind_st (the_tables t_a) (\<lambda>t4.
            bind_st (lift_st (map_err (row2feature m) t4)) (\<lambda>features.
            alloc (OFeatures features))))) (h[t_a := OTables t3])"
          using t1 t2 t3
          by (simp add: compute_features_st_def
              bind_the_tables [OF assms(3,4)] bind_the_data [OF assms(5,6)]
              bind_assign_col [OF assms(3,4)] bind_the_data [OF ty(5,6)]
              bind_assign_col [OF ty(3,4)] idt [OF t1 t2 t3])
        also have "\<dots> = (case compute_features d t dt m of
            (t', Inl e) \<Rightarrow> (h[t_a := OTables t'], Inl e)
          | (t', Inr fs) \<Rightarrow> (h[t_a := OTables t'] @ [OFeatures fs], Inr (length h)))"
          using t1 t2 t3
          by (simp add: bind_solve_loop [OF ty(1-4) ids [OF t1 t2 t3]] compute_features_def
              bind_assign_col [OF ty(3,4)] bind_the_tables [OF ty(3,4)] bind_lift alloc_def
              split: sum.splits)
        finally show ?thesis .
      qed
    qed
  qed
qed

text \<open>
  The loop of compute_band over the store against the loop on values: the same result,
  and a store that differs from the one before in the band only.
\<close>

lemma band_loop_st_exact:
  assumes "d_a < length h" "h ! d_a = ODem d" "t_a < length h" "h ! t_a = OTables t"
    "b_a < length h" "h ! b_a = OBand b" "distinct (map row_id t)" "set rs \<subseteq> set t"
  shows "(\<exists>b'. fst (band_loop_st d_a t_a b_a m (map row_id rs) ex h) = h[b_a := OBand b']) \<and>
     (case band_loop d m rs (b, ex) of
        Inl e \<Rightarrow> snd (band_loop_st d_a t_a b_a m (map row_id rs) ex h) = Inl e
      | Inr (b', ex') \<Rightarrow>
          band_loop_st d_a t_a b_a m (map row_id rs) ex h = (h[b_a := OBand b'], Inr ex'))"
  using assms
proof (induction rs arbitrary: h b ex)
  case Nil
  from Nil(5,6) have "h[b_a := OBand b] = h" by (metis list_update_id)
  then have "h[b_a := OBand b] = h" "\<exists>b'. h = h[b_a := OBand b']" by metis+
  then show ?case by (simp add: ret_st_def)
next
  case (Cons r rs)
  note ty = Cons.prems(1-6)
  from Cons.prems(8) have r: "r \<in> set t" and rs: "set rs \<subseteq> set t" by simp_all
  from ty(5,6) have id0: "h[b_a := OBand b] = h" by (metis list_update_id)
  then have id: "h[b_a := OBand b] = h" "\<exists>b'. h = h[b_a := OBand b']" by metis+
  have lc: "loc t (row_id r) = Inr r" by (rule loc_row [OF Cons.prems(7) r])
  define L where "L = band_loop_st d_a t_a b_a m (map row_id (r # rs)) ex h"
  have step: "L =
      (case subgrid_compute r d m of
         Inl e \<Rightarrow> (h, Inl e)
       | Inr None \<Rightarrow> band_loop_st d_a t_a b_a m (map row_id rs) (ex @ [row_id r]) h
       | Inr (Some v) \<Rightarrow>
           (case slice_ref r of
              SliceInts a0 a1 a2 a3 \<Rightarrow> (h, Inl KeyError)
            | Slice rws cs \<Rightarrow>
                band_loop_st d_a t_a b_a m (map row_id rs) ex
                  (h[b_a := OBand (assign_window b rws cs (value_at v))])))"
    unfolding L_def
    by (simp add: bind_the_tables [OF ty(3,4)] bind_lift lc bind_the_dem [OF ty(1,2)]
        bind_the_band [OF ty(5,6)] bind_store [OF ty(5)] raise_st_def
        split: sum.splits option.splits window_ref.splits)
  have "(\<exists>b'. fst L = h[b_a := OBand b']) \<and>
     (case band_loop d m (r # rs) (b, ex) of
        Inl e \<Rightarrow> snd L = Inl e
      | Inr (b', ex') \<Rightarrow> L = (h[b_a := OBand b'], Inr ex'))"
  proof (cases "subgrid_compute r d m")
    case (Inl e)
    with step id show ?thesis by (simp add: bind_def)
  next
    case (Inr res)
    show ?thesis
    proof (cases res)
      case None
      with step Inr
      have eq: "L = band_loop_st d_a t_a b_a m (map row_id rs) (ex @ [row_id r]) h" by simp
      from Inr None
      have pure: "band_loop d m (r # rs) (b, ex) = band_loop d m rs (b, ex @ [row_id r])"
        by (simp add: bind_def)
      show ?thesis
        unfolding eq pure by (rule Cons.IH [OF ty Cons.prems(7) rs])
    next
      case (Some v)
      show ?thesis
      proof (cases "slice_ref r")
        case (SliceInts a0 a1 a2 a3)
        with step Inr Some id show ?thesis by (simp add: bind_def)
      next
        case (Slice rws cs)
        let ?b1 = "assign_window b rws cs (value_at v)"
        let ?h1 = "h[b_a := OBand ?b1]"
        from ty have ty1: "d_a < length ?h1" "?h1 ! d_a = ODem d" "t_a < length ?h1"
          "?h1 ! t_a = OTables t" "b_a < length ?h1" "?h1 ! b_a = OBand ?b1"
          by (auto simp: nth_list_update)
        have ov: "?h1[b_a := x] = h[b_a := x]" for x by simp
        from step Inr Some Slice
        have eq: "L = band_loop_st d_a t_a b_a m (map row_id rs) ex ?h1" by simp
        from Inr Some Slice
        have pure: "band_loop d m (r # rs) (b, ex) = band_loop d m rs (?b1, ex)"
          by (simp add: bind_def)
        from Cons.IH [OF ty1 Cons.prems(7) rs, of ex]
        show ?thesis
          unfolding eq pure ov .
      qed
    qed
  qed
  then show ?case unfolding L_def .
qed

text \<open>
  The store a call of compute_band leaves, by the data frame and the result of the
  function on values: the band is a new object, at the end of the store.
\<close>

lemma compute_band_st_exact:
  assumes "d_a < length h" "h ! d_a = ODem d" "t_a < length h" "h ! t_a = OTables t"
    "data_a < length h" "h ! data_a = OData dt" "distinct (map row_id t)"
  shows "case compute_band g d t dt m of
        (t', Inl e) \<Rightarrow>
          snd (compute_band_st g_a d_a t_a data_a m h) = Inl e \<and>
          (\<exists>b'. fst (compute_band_st g_a d_a t_a data_a m h)
                  = (h @ [OBand b'])[t_a := OTables t'])
      | (t', Inr (b, ex)) \<Rightarrow>
          compute_band_st g_a d_a t_a data_a m h
            = ((h @ [OBand b])[t_a := OTables t'], Inr (length h, ex))"
proof (cases "set_col ''vol1'' (map Num (vol1 dt)) t")
  case (Inl e)
  from assms(3,4) have "(h @ [OBand x])[t_a := OTables t] = h @ [OBand x]" for x
    by (metis list_update_id length_append_singleton less_Suc_eq nth_append)
  with Inl show ?thesis
    by (simp add: compute_band_st_start [OF assms(1-6)] compute_band_def)
next
  case (Inr t1)
  let ?b0 = "masked_all (band d)"
  let ?h2 = "(h @ [OBand ?b0])[t_a := OTables t1]"
  from assms(1-4) have ty: "d_a < length ?h2" "?h2 ! d_a = ODem d" "t_a < length ?h2"
    "?h2 ! t_a = OTables t1" "length h < length ?h2" "?h2 ! length h = OBand ?b0"
    by (auto simp: nth_list_update nth_append)
  from assms(7) Inr have d1: "distinct (map row_id t1)" by (simp add: set_col_ids)
  from Inr have ids: "map row_id t = map row_id t1" by (simp add: set_col_ids)
  from assms(3) have sw: "?h2[length h := OBand x] = (h @ [OBand x])[t_a := OTables t1]" for x
    by (simp add: list_update_swap list_update_append)
  from band_loop_st_exact [OF ty d1 subset_refl, of m "[]"]
  show ?thesis
    by (auto simp: compute_band_st_start [OF assms(1-6)] Inr compute_band_def ids sw bind_st_def
        ret_st_def split: sum.splits prod.splits)
qed

lemma compute_band_cols:
  assumes "length (vol1 dt) = length t"
  shows "length (fst (compute_band g d t dt m)) = length t \<and>
     (\<forall>k<length t. fst (compute_band g d t dt m) ! k = with_vol (t ! k) (vol1 dt ! k))"
proof -
  from assms have "length (map Num (vol1 dt)) = length t" by simp
  from set_col_ok [OF this, of "''vol1''"] obtain t1
    where sc: "set_col ''vol1'' (map Num (vol1 dt)) t = Inr t1" and len: "length t1 = length t"
      and nth: "\<forall>k<length t. t1 ! k
          = (t ! k)\<lparr>cols := (cols (t ! k))(''vol1'' \<mapsto> map Num (vol1 dt) ! k)\<rparr>"
    by blast
  from sc have "fst (compute_band g d t dt m) = t1" by (simp add: compute_band_def)
  with len nth assms show ?thesis by (simp add: with_vol_def)
qed

lemma observed_rows:
  assumes "length (vol1 dt) = length t" "length (s1 dt) = length t"
    "length (waterdepth dt) = length t"
  shows "\<exists>t1 t2 t3. set_col ''vol1'' (map Num (vol1 dt)) t = Inr t1 \<and>
     set_col ''s1'' (map Num (s1 dt)) t1 = Inr t2 \<and>
     set_col ''waterdepth'' (map Num (waterdepth dt)) t2 = Inr t3 \<and>
     length t3 = length t \<and> (\<forall>k<length t. t3 ! k = observed dt k (t ! k))"
proof -
  from assms(1) have "length (map Num (vol1 dt)) = length t" by simp
  from set_col_ok [OF this, of "''vol1''"] obtain t1
    where sc1: "set_col ''vol1'' (map Num (vol1 dt)) t = Inr t1" and len1: "length t1 = length t"
      and nth1: "\<forall>k<length t. t1 ! k
          = (t ! k)\<lparr>cols := (cols (t ! k))(''vol1'' \<mapsto> map Num (vol1 dt) ! k)\<rparr>"
    by blast
  from assms(2) len1 have "length (map Num (s1 dt)) = length t1" by simp
  from set_col_ok [OF this, of "''s1''"] obtain t2
    where sc2: "set_col ''s1'' (map Num (s1 dt)) t1 = Inr t2" and len2: "length t2 = length t1"
      and nth2: "\<forall>k<length t1. t2 ! k
          = (t1 ! k)\<lparr>cols := (cols (t1 ! k))(''s1'' \<mapsto> map Num (s1 dt) ! k)\<rparr>"
    by blast
  from assms(3) len1 len2 have "length (map Num (waterdepth dt)) = length t2" by simp
  from set_col_ok [OF this, of "''waterdepth''"] obtain t3
    where sc3: "set_col ''waterdepth'' (map Num (waterdepth dt)) t2 = Inr t3"
      and len3: "length t3 = length t2"
      and nth3: "\<forall>k<length t2. t3 ! k
          = (t2 ! k)\<lparr>cols := (cols (t2 ! k))(''waterdepth'' \<mapsto> map Num (waterdepth dt) ! k)\<rparr>"
    by blast
  have "t3 ! k = observed dt k (t ! k)" if k: "k < length t" for k
    using k nth1 nth2 nth3 len1 len2 assms by (simp add: observed_def)
  with sc1 sc2 sc3 len1 len2 len3 show ?thesis by auto
qed

lemma compute_features_cols:
  assumes "length (vol1 dt) = length t" "length (s1 dt) = length t"
    "length (waterdepth dt) = length t"
  shows "length (fst (compute_features d t dt m)) = length t \<and>
     (\<forall>k<length t. fst (compute_features d t dt m) ! k =
        (if \<forall>j<length t. \<exists>res. subgrid_compute (observed dt j (t ! j)) d m = Inr res
         then (observed dt k (t ! k))\<lparr>cols := (cols (observed dt k (t ! k)))
                (''subgrid_'' @ m \<mapsto> Res (projr (subgrid_compute (observed dt k (t ! k)) d m)))\<rparr>
         else observed dt k (t ! k)))"
proof -
  define name where "name = ''subgrid_'' @ m"
  from observed_rows [OF assms] obtain t1 t2 t3
    where sc: "set_col ''vol1'' (map Num (vol1 dt)) t = Inr t1"
      "set_col ''s1'' (map Num (s1 dt)) t1 = Inr t2"
      "set_col ''waterdepth'' (map Num (waterdepth dt)) t2 = Inr t3"
      and len3: "length t3 = length t"
      and nth3: "\<forall>k<length t. t3 ! k = observed dt k (t ! k)"
    by blast
  have cf: "fst (compute_features d t dt m) =
      (case map_err (\<lambda>r. subgrid_compute r d m) t3 of
         Inl e \<Rightarrow> t3
       | Inr results \<Rightarrow>
           (case set_col name (map Res results) t3 of Inl e \<Rightarrow> t3 | Inr t4 \<Rightarrow> t4))"
    unfolding name_def compute_features_def
    by (simp add: sc split: sum.splits)
  show ?thesis
  proof (cases "map_err (\<lambda>r. subgrid_compute r d m) t3")
    case (Inl e)
    from map_err_Inl_ex [OF Inl] obtain j
      where j: "j < length t3" "subgrid_compute (t3 ! j) d m = Inl e" by blast
    with len3 nth3 have "j < length t" "subgrid_compute (observed dt j (t ! j)) d m = Inl e"
      by simp_all
    then have ns: "\<not> (\<forall>j<length t. \<exists>res. subgrid_compute (observed dt j (t ! j)) d m = Inr res)"
      by (metis sum.distinct(1))
    from cf Inl have eq: "fst (compute_features d t dt m) = t3" by simp
    from len3 nth3 show ?thesis unfolding eq if_not_P [OF ns] by simp
  next
    case (Inr results)
    from map_err_nth [OF Inr] have lr: "length results = length t3"
      and nr: "\<forall>k<length t3. subgrid_compute (t3 ! k) d m = Inr (results ! k)"
      by blast+
    from nr len3 nth3
    have so: "\<forall>j<length t. subgrid_compute (observed dt j (t ! j)) d m = Inr (results ! j)"
      by simp
    then have s: "\<forall>j<length t. \<exists>res. subgrid_compute (observed dt j (t ! j)) d m = Inr res"
      by blast
    from lr have "length (map Res results) = length t3" by simp
    from set_col_ok [OF this, of name] obtain t4
      where sc4: "set_col name (map Res results) t3 = Inr t4" and len4: "length t4 = length t3"
        and nth4: "\<forall>k<length t3. t4 ! k
            = (t3 ! k)\<lparr>cols := (cols (t3 ! k))(name \<mapsto> map Res results ! k)\<rparr>"
      by blast
    from cf Inr sc4 have eq: "fst (compute_features d t dt m) = t4" by simp
    have "t4 ! k = (observed dt k (t ! k))\<lparr>cols := (cols (observed dt k (t ! k)))
                (name \<mapsto> Res (projr (subgrid_compute (observed dt k (t ! k)) d m)))\<rparr>"
      if k: "k < length t" for k
      using k nth4 len3 nth3 lr so by simp
    with s len4 len3 show ?thesis unfolding eq name_def by simp
  qed
qed

lemma scenario_table:
  "table_of (scenario_dem t) [[Some 0, Some 1, Some 2, Some 3, Some 4]] =
     ([1, 0, 0, 0, 0, 1, 0, 0, 0, 0, 1, 0, 0, 0, 0, 1, 0, 0, 0, 1],
      [0, 1 / 5, 2 / 5, 3 / 5, 4 / 5, 1, 6 / 5, 7 / 5, 8 / 5, 9 / 5, 2, 11 / 5, 12 / 5,
       13 / 5, 14 / 5, 3, 16 / 5, 17 / 5, 18 / 5, 19 / 5, 4],
      [1 / 5, 1 / 5, 1 / 5, 1 / 5, 1 / 5, 2 / 5, 2 / 5, 2 / 5, 2 / 5, 2 / 5, 3 / 5, 3 / 5,
       3 / 5, 3 / 5, 3 / 5, 4 / 5, 4 / 5, 4 / 5, 4 / 5, 1],
      [1 / 5, 2 / 5, 3 / 5, 4 / 5, 1, 7 / 5, 9 / 5, 11 / 5, 13 / 5, 3, 18 / 5, 21 / 5,
       24 / 5, 27 / 5, 6, 34 / 5, 38 / 5, 42 / 5, 46 / 5, 51 / 5])"
  by (simp add: table_of_def histogram_def outer_edges_def linspace_def bin_index_def
      upt_20 upt_21 cumsum_def diff_def scenario_dem_def unit_dem_def)

lemma scenario_dem_fields:
  "band (scenario_dem t) = [[Some 0, Some 1, Some 2, Some 3, Some 4]]"
  "world2px (scenario_dem t) = px_floor"
  by (simp_all add: scenario_dem_def unit_dem_def)

lemma scenario_tables:
  "build_tables \<lparr>face_coordinates = [[(0, 0), (5, 1)]], face_centers = [(5 / 2, 1 / 2)]\<rparr>
     (scenario_dem t) =
     Inr [\<lparr>row_id = 0, slice_ref = Slice (0, 1) (0, 5), face = [(0, 0), (5, 1)],
           volume_table = Some [1 / 5, 1 / 5, 1 / 5, 1 / 5, 1 / 5, 2 / 5, 2 / 5, 2 / 5, 2 / 5,
             2 / 5, 3 / 5, 3 / 5, 3 / 5, 3 / 5, 3 / 5, 4 / 5, 4 / 5, 4 / 5, 4 / 5, 1],
           cum_volume_table = Some [1 / 5, 2 / 5, 3 / 5, 4 / 5, 1, 7 / 5, 9 / 5, 11 / 5,
             13 / 5, 3, 18 / 5, 21 / 5, 24 / 5, 27 / 5, 6, 34 / 5, 38 / 5, 42 / 5, 46 / 5,
             51 / 5],
           n_per_bin = Some [1, 0, 0, 0, 0, 1, 0, 0, 0, 0, 1, 0, 0, 0, 0, 1, 0, 0, 0, 1],
           extent = [0, 5, 0, 1],
           bin_edges = Some [0, 1 / 5, 2 / 5, 3 / 5, 4 / 5, 1, 6 / 5, 7 / 5, 8 / 5, 9 / 5, 2,
             11 / 5, 12 / 5, 13 / 5, 14 / 5, 3, 16 / 5, 17 / 5, 18 / 5, 19 / 5, 4],
           cols = Map.empty\<rparr>]"
proof -
  have w: "window [[Some 0, Some 1, Some 2, Some 3, Some 4]] (0, 1) (0, 5)
      = [[Some 0, Some 1, Some 2, Some 3, Some (4 :: real)]]"
    by (simp add: window_def py_slice_def clip_bound_def)
  show ?thesis
    by (simp add: build_tables_def scenario_dem_fields px_floor_def
        build_row_def arr_min_def arr_max_def bind_def w mask_any_def Let_def scenario_table)
qed

lemma observed_solve:
  "subgrid_compute (observed dt k r) d m = subgrid_compute (with_vol r (vol1 dt ! k)) d m"
proof -
  let ?c = "(cols r)(''vol1'' \<mapsto> Num (vol1 dt ! k), ''s1'' \<mapsto> Num (s1 dt ! k),
      ''waterdepth'' \<mapsto> Num (waterdepth dt ! k))"
  have "observed dt k r = (with_vol r (vol1 dt ! k))\<lparr>cols := ?c\<rparr>"
    by (simp add: observed_def with_vol_def)
  moreover have "?c ''vol1'' = cols (with_vol r (vol1 dt ! k)) ''vol1''"
    by (simp add: with_vol_def)
  ultimately show ?thesis by (simp only: subgrid_compute_cols)
qed

lemma scenario_objects:
  "length scenario_store = 4"
  "scenario_store ! 0
     = OGrid \<lparr>face_coordinates = [[(0, 0), (5, 1)]], face_centers = [(5 / 2, 1 / 2)]\<rparr>"
  "scenario_store ! 1 = ODem (scenario_dem FloatDType)"
  "scenario_store ! 2 = OTables [scenario_row]"
  "scenario_store ! 3 = OData \<lparr>vol1 = [30], s1 = [9 / 4], waterdepth = [1]\<rparr>"
  by (simp_all add: scenario_store_def)

lemma scenario_band_loop:
  "band_loop (scenario_dem FloatDType) ''waterlevel'' [with_vol scenario_row 30]
     (masked_all (band (scenario_dem FloatDType)), [])
   = Inr ([[Some (9 / 4), Some (9 / 4), Some (9 / 4), Some (9 / 4), Some (9 / 4)]], [])"
proof -
  have s: "slice_ref (with_vol scenario_row 30) = Slice (0, 1) (0, 5)"
    by (simp add: with_vol_def scenario_row_def)
  show ?thesis
    by (simp add: scenario_level_30 bind_def s scenario_dem_fields masked_all_def
        assign_window_def assign_row_def value_at_def clip_bound_def)
qed

lemma scenario_band_call:
  "compute_band_st 0 1 2 3 ''waterlevel'' scenario_store =
     ([OGrid \<lparr>face_coordinates = [[(0, 0), (5, 1)]], face_centers = [(5 / 2, 1 / 2)]\<rparr>,
       ODem (scenario_dem FloatDType),
       OTables [with_vol scenario_row 30],
       OData \<lparr>vol1 = [30], s1 = [9 / 4], waterdepth = [1]\<rparr>,
       OBand [[Some (9 / 4), Some (9 / 4), Some (9 / 4), Some (9 / 4), Some (9 / 4)]]],
      Inr (4, []))"
proof -
  let ?g = "\<lparr>face_coordinates = [[(0, 0), (5, 1)]], face_centers = [(5 / 2, 1 / 2)]\<rparr>"
  let ?dt = "\<lparr>vol1 = [30], s1 = [9 / 4], waterdepth = [1]\<rparr>"
  have cb: "compute_band ?g (scenario_dem FloatDType) [scenario_row] ?dt ''waterlevel''
      = ([with_vol scenario_row 30],
         Inr ([[Some (9 / 4), Some (9 / 4), Some (9 / 4), Some (9 / 4), Some (9 / 4)]], []))"
  proof -
    have "set_col ''vol1'' (map Num (vol1 ?dt)) [scenario_row] = Inr [with_vol scenario_row 30]"
      by (simp add: set_col_def with_vol_def)
    then show ?thesis by (simp only: compute_band_def sum.case scenario_band_loop)
  qed
  have ty: "1 < length scenario_store" "2 < length scenario_store" "3 < length scenario_store"
    by (simp_all add: scenario_objects)
  have di: "distinct (map row_id [scenario_row])" by simp
  from compute_band_st_exact [OF ty(1) scenario_objects(3) ty(2) scenario_objects(4) ty(3)
      scenario_objects(5) di, where g = ?g and m = "''waterlevel''" and g_a = 0]
  show ?thesis
    unfolding cb by (simp add: scenario_store_def)
qed




end
